(* ===== verification/Prelude.thy ===== *)
theory Prelude
  imports Main
begin

text \<open>
  Shared vocabulary of the development: the names of the model's basic types, the
  collections of rewrite rules the component theories fill, and generic facts on lists,
  association lists and folds that several components use. It also holds the model of
  JavaScript completions that the components share: a statement returns an optional
  exception with the state reached (\<open>completion\<close>), a sequence stops at the first
  throw (\<open>fold_throw\<close>), and a fallible map returns the first error or all
  results (\<open>map_throw\<close>).
\<close>

section \<open>Names of the model's types\<close>

type_synonym channel = string
  \<comment> \<open>the \<open>type\<close> argument of the emitter and the \<open>CHANNEL_ID\<close> of a usage site\<close>
type_synonym site_id = nat
  \<comment> \<open>identity of one usage site, hence of its \<open>updateByChannelId\<close> closure\<close>

section \<open>Rule collections\<close>

named_theorems obj_simps "evaluation rules of the JavaScript object model"
named_theorems bus_simps "evaluation rules of the event emitter"
named_theorems url_simps "evaluation rules of the URL and query-string model"

section \<open>Computations that may throw\<close>

text \<open>A completion of a JavaScript statement that acts on a state: the exception it
  threw, if any, and the state reached, which keeps every change made before the
  throw.\<close>

type_synonym ('e, 's) completion = "'e option \<times> 's"

text \<open>Statements run in sequence until the first throw.\<close>

fun fold_throw :: "('a \<Rightarrow> 's \<Rightarrow> ('e, 's) completion) \<Rightarrow> 'a list \<Rightarrow> 's \<Rightarrow> ('e, 's) completion" where
  "fold_throw f [] s = (None, s)"
| "fold_throw f (x # xs) s =
     (case f x s of (Some e, s') \<Rightarrow> (Some e, s') | (None, s') \<Rightarrow> fold_throw f xs s')"

text \<open>A conversion applied to the elements of a list in order, stopping at the first
  throw.\<close>

fun map_throw :: "('a \<Rightarrow> 'e + 'b) \<Rightarrow> 'a list \<Rightarrow> 'e + 'b list" where
  "map_throw f [] = Inr []"
| "map_throw f (x # xs) = (case f x of Inl e \<Rightarrow> Inl e | Inr y \<Rightarrow> map_sum id (Cons y) (map_throw f xs))"

section \<open>Generic lemmas\<close>

subsection \<open>Association lists\<close>

lemma map_of_map_update_same [simp]:
  "map_of (map (\<lambda>(k', v'). if k' = k then (k', v) else (k', v')) xs) k =
     (if k \<in> fst ` set xs then Some v else None)"
  by (induction xs) auto

lemma map_of_map_update_other [simp]:
  "k' \<noteq> k \<Longrightarrow>
   map_of (map (\<lambda>(k'', v'). if k'' = k then (k'', v) else (k'', v')) xs) k' = map_of xs k'"
  by (induction xs) auto

lemma fst_comp_update [simp]:
  "fst \<circ> (\<lambda>(k', v'). if k' = k then (k', v) else (k', v')) = fst"
  by auto

lemma map_of_rev_distinct:
  "distinct (map fst xs) \<Longrightarrow> map_of (rev xs) = map_of xs"
  by (subst map_of_inject_set) (simp_all add: rev_map [symmetric])

subsection \<open>Folds\<close>

text \<open>A fold whose steps all keep a predicate keeps it.\<close>

lemma fold_invariant:
  assumes "\<And>x s. x \<in> set xs \<Longrightarrow> P s \<Longrightarrow> P (f x s)" and "P s"
  shows "P (fold f xs s)"
  using assms by (induction xs arbitrary: s) auto

text \<open>A fold whose steps do not touch a projection leaves it unchanged.\<close>

lemma fold_frame:
  assumes "\<And>x s. x \<in> set xs \<Longrightarrow> g (f x s) = g s"
  shows "g (fold f xs s) = g s"
  using assms by (induction xs arbitrary: s) auto

subsection \<open>Computations that may throw\<close>

lemma fold_throw_append:
  "fold_throw f (xs @ ys) s =
     (case fold_throw f xs s of (Some e, s') \<Rightarrow> (Some e, s') | (None, s') \<Rightarrow> fold_throw f ys s')"
  by (induction xs arbitrary: s) (auto split: prod.split option.split)

text \<open>Steps that do not touch a projection leave it unchanged, whether the sequence
  completes or throws.\<close>

lemma fold_throw_frame:
  assumes "\<And>x s. x \<in> set xs \<Longrightarrow> g (snd (f x s)) = g s"
  shows "g (snd (fold_throw f xs s)) = g s"
  using assms
proof (induction xs arbitrary: s)
  case (Cons x xs)
  obtain r s' where fx: "f x s = (r, s')" by (cases "f x s")
  have "g s' = g s" using Cons.prems [of x s] fx by simp
  with Cons fx show ?case by (cases r) simp_all
qed simp

lemma fold_throw_invariant:
  assumes "\<And>x s. x \<in> set xs \<Longrightarrow> P s \<Longrightarrow> P (snd (f x s))" and "P s"
  shows "P (snd (fold_throw f xs s))"
  using assms
proof (induction xs arbitrary: s)
  case (Cons x xs)
  obtain r s' where fx: "f x s = (r, s')" by (cases "f x s")
  have "P s'" using Cons.prems(1) [of x s] Cons.prems(2) fx by simp
  with Cons fx show ?case by (cases r) simp_all
qed simp

text \<open>When no step throws, the sequence is a fold of the states.\<close>

lemma fold_throw_no_throw:
  assumes "\<And>x s. x \<in> set xs \<Longrightarrow> fst (f x s) = None"
  shows "fold_throw f xs s = (None, fold (\<lambda>x s. snd (f x s)) xs s)"
  using assms
proof (induction xs arbitrary: s)
  case (Cons x xs)
  obtain r s' where fx: "f x s = (r, s')" by (cases "f x s")
  with Cons.prems [of x s] have "r = None" by simp
  with Cons fx show ?case by simp
qed simp

lemma map_throw_Inr:
  "(\<And>x. x \<in> set xs \<Longrightarrow> f x = Inr (g x)) \<Longrightarrow> map_throw f xs = Inr (map g xs)"
  by (induction xs) simp_all

lemma map_throw_Nil_iff: "map_throw f xs = Inr [] \<longleftrightarrow> xs = []"
proof (cases xs)
  case (Cons x ys)
  then show ?thesis by (cases "f x"; cases "map_throw f ys") auto
qed simp

lemma map_throw_Inl:
  "map_throw f xs = Inl e \<Longrightarrow> \<exists>x \<in> set xs. f x = Inl e"
proof (induction xs)
  case (Cons x xs)
  then show ?case by (cases "f x"; cases "map_throw f xs") auto
qed simp

subsection \<open>Sums\<close>

lemma map_sum_not_isl: "\<not> isl y \<Longrightarrow> map_sum f g y = Inr (g (projr y))"
  by (cases y) simp_all

lemma map_sum_Inr_iff: "map_sum f g x = Inr y \<longleftrightarrow> (\<exists>z. x = Inr z \<and> y = g z)"
  by (cases x) auto

subsection \<open>Lists\<close>

lemma dropWhile_none: "(\<And>x. x \<in> set xs \<Longrightarrow> \<not> P x) \<Longrightarrow> dropWhile P xs = xs"
  by (cases xs) auto

text \<open>Counting through a list update: the count loses the old element and gains the
  new one.\<close>

lemma length_filter_list_update:
  "i < length xs \<Longrightarrow>
   length (filter P (xs[i := x])) + (if P (xs ! i) then 1 else 0) =
   length (filter P xs) + (if P x then 1 else 0)"
proof (induction xs arbitrary: i)
  case (Cons y ys)
  show ?case
  proof (cases i)
    case 0
    then show ?thesis by simp
  next
    case (Suc k)
    with Cons.prems have "k < length ys" by simp
    from Cons.IH [OF this] Suc show ?thesis by simp
  qed
qed simp

lemma map_list_update_same:
  "f y = f (xs ! i) \<Longrightarrow> map f (xs[i := y]) = map f xs"
proof (cases "i < length xs")
  case True
  assume "f y = f (xs ! i)"
  with True show ?thesis by (intro nth_equalityI) (simp_all add: nth_list_update)
qed (simp add: list_update_beyond)

end
