(* ===== verification/JsObject.thy ===== *)
theory JsObject
  imports Prelude
begin

text \<open>
  The ordinary JavaScript objects the hook keeps its state in: the snapshot
  \<open>search.value\<close>, the partial update \<open>newParams\<close>, the \<open>result\<close> that \<open>init\<close> fills,
  the field schema \<open>fields\<close> and the emitter's \<open>eventMap\<close> (src/index.ts).
  An object is modelled by its own enumerable data properties in creation order, an
  association list with distinct keys (\<open>obj_wf\<close>). The prototype is
  \<open>Object.prototype\<close>, whose own property names are \<open>object_prototype_keys\<close>; it has
  no enumerable property, so \<open>for ... in\<close> and spreading see own properties only.

  Three operations of the language are modelled:
  \<^item> \<open>obj_define\<close>, CreateDataProperty: overwrite in place or append;
  \<^item> \<open>obj_assign\<close>, the assignment \<open>o[k] = v\<close>: as \<open>obj_define\<close>, except that a key
    \<open>__proto__\<close> that is not an own property reaches the accessor of
    \<open>Object.prototype\<close>, which ignores a primitive value;
  \<^item> \<open>obj_entries\<close>, the order of OrdinaryOwnPropertyKeys, which \<open>for ... in\<close> and
    object spread follow: the array-index keys first in ascending numeric order, then
    the other string keys in creation order.
\<close>

section \<open>Objects and their well-formedness\<close>

type_synonym 'v jsobj = "(string \<times> 'v) list"

definition obj_wf :: "'v jsobj \<Rightarrow> bool" where
  "obj_wf obj \<longleftrightarrow> distinct (map fst obj)"

definition obj_get :: "'v jsobj \<Rightarrow> string \<Rightarrow> 'v option" where
  "obj_get obj k = map_of obj k"

definition obj_define :: "'v jsobj \<Rightarrow> string \<Rightarrow> 'v \<Rightarrow> 'v jsobj" where
  "obj_define obj k v =
     (if k \<in> set (map fst obj)
      then map (\<lambda>(k', v'). if k' = k then (k', v) else (k', v')) obj
      else obj @ [(k, v)])"

definition object_prototype_keys :: "string list" where
  "object_prototype_keys =
     [''constructor'', ''__defineGetter__'', ''__defineSetter__'', ''hasOwnProperty'',
      ''__lookupGetter__'', ''__lookupSetter__'', ''isPrototypeOf'',
      ''propertyIsEnumerable'', ''toString'', ''valueOf'', ''__proto__'', ''toLocaleString'']"

definition obj_assign :: "'v jsobj \<Rightarrow> string \<Rightarrow> 'v \<Rightarrow> 'v jsobj" where
  "obj_assign obj k v =
     (if k \<in> set (map fst obj) then obj_define obj k v
      else if k = ''__proto__'' then obj
      else obj_define obj k v)"

section \<open>Property order\<close>

definition is_digit :: "char \<Rightarrow> bool" where
  "is_digit c \<longleftrightarrow> (48::nat) \<le> of_char c \<and> of_char c \<le> (57::nat)"

definition digits_value :: "string \<Rightarrow> nat" where
  "digits_value s = foldl (\<lambda>n c. 10 * n + (of_char c - 48)) 0 s"

text \<open>
  An array index is a canonical decimal numeral (no leading zero but for \<open>0\<close> itself)
  below \<open>2^32 - 1\<close>: the strings \<open>P\<close> with \<open>ToString(ToUint32(P)) = P\<close> and
  \<open>ToUint32(P) \<noteq> 2^32 - 1\<close>.
\<close>

definition is_array_index :: "string \<Rightarrow> bool" where
  "is_array_index k =
     (case k of
        [] \<Rightarrow> False
      | c # cs \<Rightarrow> list_all is_digit k \<and> (cs = [] \<or> 49 \<le> (of_char c :: nat))
                 \<and> digits_value k < 4294967295)"

definition obj_entries :: "'v jsobj \<Rightarrow> 'v jsobj" where
  "obj_entries obj =
     sort_key (\<lambda>(k, v). digits_value k) (filter (\<lambda>(k, v). is_array_index k) obj)
     @ filter (\<lambda>(k, v). \<not> is_array_index k) obj"

section \<open>Object spread\<close>

text \<open>\<open>CopyDataProperties\<close>: the source's own properties, in property order, defined
  on the target one by one.\<close>

definition obj_copy_into :: "'v jsobj \<Rightarrow> 'v jsobj \<Rightarrow> 'v jsobj" where
  "obj_copy_into target src = fold (\<lambda>(k, v) t. obj_define t k v) (obj_entries src) target"

text \<open>The object literal \<open>{...a, ...b}\<close>.\<close>

definition obj_spread2 :: "'v jsobj \<Rightarrow> 'v jsobj \<Rightarrow> 'v jsobj" where
  "obj_spread2 a b = obj_copy_into (obj_copy_into [] a) b"

declare obj_get_def [obj_simps] obj_define_def [obj_simps] obj_assign_def [obj_simps]
  obj_entries_def [obj_simps] is_array_index_def [obj_simps] digits_value_def [obj_simps]
  is_digit_def [obj_simps] obj_spread2_def [obj_simps] obj_copy_into_def [obj_simps]

section \<open>Lemmas\<close>

subsection \<open>Single properties\<close>

lemma obj_get_define [simp]:
  "obj_get (obj_define obj k v) k' = (if k' = k then Some v else obj_get obj k')"
proof (cases "k \<in> set (map fst obj)")
  case True
  then show ?thesis by (simp add: obj_get_def obj_define_def)
next
  case False
  then have "map_of obj k = None" by (simp add: map_of_eq_None_iff)
  with False show ?thesis
    by (simp add: obj_get_def obj_define_def map_add_def split: option.split)
qed

lemma obj_get_None_iff: "obj_get obj k = None \<longleftrightarrow> k \<notin> set (map fst obj)"
  by (simp add: obj_get_def map_of_eq_None_iff)

lemma obj_get_Nil [simp]: "obj_get [] k = None"
  by (simp add: obj_get_def)

lemma keys_define:
  "map fst (obj_define obj k v) =
     (if k \<in> set (map fst obj) then map fst obj else map fst obj @ [k])"
  by (simp add: obj_define_def)

lemma obj_wf_define [simp]: "obj_wf obj \<Longrightarrow> obj_wf (obj_define obj k v)"
  by (simp add: obj_wf_def keys_define)

lemma obj_wf_assign [simp]: "obj_wf obj \<Longrightarrow> obj_wf (obj_assign obj k v)"
  by (simp add: obj_assign_def)

lemma set_obj_define_subset: "set (obj_define obj k v) \<subseteq> insert (k, v) (set obj)"
  by (auto simp: obj_define_def split: if_splits)

lemma set_obj_assign_subset: "set (obj_assign obj k v) \<subseteq> insert (k, v) (set obj)"
  using set_obj_define_subset [of obj k v] by (auto simp: obj_assign_def)

lemma obj_get_assign:
  "obj_get (obj_assign obj k v) k' =
     (if k' = k \<and> (obj_get obj k \<noteq> None \<or> k \<noteq> ''__proto__'') then Some v else obj_get obj k')"
  by (simp add: obj_assign_def obj_get_None_iff)

lemma obj_wf_Nil [simp]: "obj_wf []"
  by (simp add: obj_wf_def)

subsection \<open>Property order is a permutation\<close>

lemma set_obj_entries [simp]: "set (obj_entries obj) = set obj"
  by (auto simp: obj_entries_def)

lemma obj_wf_entries [simp]: "obj_wf obj \<Longrightarrow> obj_wf (obj_entries obj)"
proof -
  assume wf: "obj_wf obj"
  then have d: "distinct obj" and inj: "inj_on fst (set obj)"
    by (simp_all add: obj_wf_def distinct_map)
  from d have "distinct (obj_entries obj)"
    by (auto simp: obj_entries_def)
  with inj show ?thesis
    by (simp add: obj_wf_def distinct_map)
qed

lemma map_of_obj_entries [simp]: "obj_wf obj \<Longrightarrow> map_of (obj_entries obj) = map_of obj"
  by (simp add: map_of_inject_set obj_wf_def [symmetric])

subsection \<open>Copying and spreading\<close>

lemma obj_get_fold_define:
  "obj_get (fold (\<lambda>(k, v) t. obj_define t k v) xs t) k =
     (case map_of (rev xs) k of Some v \<Rightarrow> Some v | None \<Rightarrow> obj_get t k)"
  by (induction xs arbitrary: t) (auto split: option.splits)

lemma obj_wf_fold_define: "obj_wf t \<Longrightarrow> obj_wf (fold (\<lambda>(k, v) t. obj_define t k v) xs t)"
  by (rule fold_invariant) auto

lemma obj_get_copy_into [simp]:
  "obj_wf src \<Longrightarrow>
   obj_get (obj_copy_into t src) k =
     (case obj_get src k of Some v \<Rightarrow> Some v | None \<Rightarrow> obj_get t k)"
  using obj_wf_entries [of src]
  by (simp add: obj_copy_into_def obj_get_fold_define obj_wf_def map_of_rev_distinct)
     (simp add: obj_get_def obj_wf_def)

lemma obj_wf_copy_into [simp]: "obj_wf t \<Longrightarrow> obj_wf (obj_copy_into t src)"
  by (simp add: obj_copy_into_def obj_wf_fold_define)

lemma obj_wf_spread2 [simp]: "obj_wf (obj_spread2 a b)"
  by (simp add: obj_spread2_def)

lemma obj_get_spread2:
  "obj_wf a \<Longrightarrow> obj_wf b \<Longrightarrow>
   obj_get (obj_spread2 a b) k =
     (case obj_get b k of Some v \<Rightarrow> Some v | None \<Rightarrow> obj_get a k)"
  by (cases "obj_get b k"; cases "obj_get a k") (simp_all add: obj_spread2_def)

end
