(* ===== verification/JsValue.thy ===== *)
theory JsValue
  imports JsObject
begin

text \<open>
  The JavaScript values the hook stores in a snapshot and the built-in conversions it
  applies to them (src/index.ts): \<open>typeof\<close> and unary plus in \<open>checkType\<close>,
  \<open>EMPTY_LIST.includes\<close>, the template literal \<open>`${key}=${value}`\<close> and
  \<open>kv.join("&")\<close> in \<open>toString\<close>. Values are the primitives and the arrays and
  plain objects that \<open>JSON.parse\<close> (theory \<open>Json\<close>) creates for a boolean field.

  Numbers are left abstract: a value of type \<open>'n\<close> is a JavaScript number, and a
  \<open>number_host\<close> record supplies the engine's conversions, ToNumber on strings (unary
  plus), Number::toString, the NaN test and the NaN value. The only property of the engine
  the theorems assume is \<open>number_host_ok\<close>: NaN is NaN, and printing a number that is
  not NaN and reading it back gives the number (ECMA-262 guarantees this for
  Number::toString; the model identifies \<open>-0\<close> with \<open>+0\<close>, as \<open>===\<close> does).
  \<open>int_host\<close> is one such engine, exact on decimal integer literals, used to evaluate
  the theorems on concrete inputs.

  Strings are byte strings: the UTF-8 encoding of the JavaScript string.
\<close>

section \<open>Values\<close>

datatype 'n jsval =
    JUndefined | JNull | JBool bool | JNum 'n | JStr string
  | JArr "'n jsval list" | JObj "(string \<times> 'n jsval) list"

datatype js_type = TUndefined | TObject | TBoolean | TNumber | TString | TFunction

fun js_typeof :: "'n jsval \<Rightarrow> js_type" where
  "js_typeof JUndefined = TUndefined"
| "js_typeof JNull = TObject"
| "js_typeof (JBool b) = TBoolean"
| "js_typeof (JNum n) = TNumber"
| "js_typeof (JStr s) = TString"
| "js_typeof (JArr xs) = TObject"
| "js_typeof (JObj ps) = TObject"

record 'n number_host =
  to_number :: "string \<Rightarrow> 'n"
  number_to_string :: "'n \<Rightarrow> string"
  is_nan :: "'n \<Rightarrow> bool"
  nan :: 'n

definition number_host_ok :: "'n number_host \<Rightarrow> bool" where
  "number_host_ok H \<longleftrightarrow>
     is_nan H (nan H) \<and> (\<forall>n. is_nan H n \<or> to_number H (number_to_string H n) = n)"

section \<open>Conversions to string and the empty values\<close>

text \<open>\<open>Array.prototype.join(sep)\<close> on strings: \<open>kv.join("&")\<close> in \<open>toString\<close>.\<close>

fun js_join :: "string \<Rightarrow> string list \<Rightarrow> string" where
  "js_join sep [] = []"
| "js_join sep [x] = x"
| "js_join sep (x # y # ys) = x @ sep @ js_join sep (y # ys)"

text \<open>The exception the conversions throw.\<close>

datatype js_error = TypeError

text \<open>ToString, as the template literal applies it (OrdinaryToPrimitive with hint
  string). An array is joined with commas by \<open>Array.prototype.toString\<close>, its \<open>null\<close>
  and \<open>undefined\<close> elements written as empty strings, the first element whose
  conversion throws aborting the join. An ordinary object is \<open>[object Object]\<close>,
  unless it has an own \<open>toString\<close> property: a \<open>JSON.parse\<close> object's properties
  are never callable, so \<open>toString\<close> is skipped, the inherited \<open>valueOf\<close> returns
  the object itself, which is not a primitive, and the conversion throws a TypeError.\<close>

fun js_to_string :: "'n number_host \<Rightarrow> 'n jsval \<Rightarrow> js_error + string"
  and js_elements_to_string :: "'n number_host \<Rightarrow> 'n jsval list \<Rightarrow> js_error + string list" where
  "js_to_string H JUndefined = Inr ''undefined''"
| "js_to_string H JNull = Inr ''null''"
| "js_to_string H (JBool b) = Inr (if b then ''true'' else ''false'')"
| "js_to_string H (JNum n) = Inr (number_to_string H n)"
| "js_to_string H (JStr s) = Inr s"
| "js_to_string H (JArr xs) = map_sum id (js_join '','') (js_elements_to_string H xs)"
| "js_to_string H (JObj ps) =
     (if ''toString'' \<in> set (map fst ps) then Inl TypeError else Inr ''[object Object]'')"
| "js_elements_to_string H [] = Inr []"
| "js_elements_to_string H (x # xs) =
     (case (case x of JNull \<Rightarrow> Inr [] | JUndefined \<Rightarrow> Inr [] | _ \<Rightarrow> js_to_string H x) of
        Inl e \<Rightarrow> Inl e
      | Inr s \<Rightarrow> map_sum id (Cons s) (js_elements_to_string H xs))"

text \<open>SameValueZero, the comparison of \<open>Array.prototype.includes\<close>. Objects compare
  by identity; the objects of the model are the fresh ones \<open>JSON.parse\<close> creates, and
  they are compared with the primitives of \<open>EMPTY_LIST\<close> only, so an object is
  SameValueZero to no value here.\<close>

fun same_value_zero :: "'n number_host \<Rightarrow> 'n jsval \<Rightarrow> 'n jsval \<Rightarrow> bool" where
  "same_value_zero H (JNum a) (JNum b) = ((is_nan H a \<and> is_nan H b) \<or> a = b)"
| "same_value_zero H (JArr a) b = False"
| "same_value_zero H (JObj a) b = False"
| "same_value_zero H a (JArr b) = False"
| "same_value_zero H a (JObj b) = False"
| "same_value_zero H a b = (a = b)"

text \<open>\<open>const EMPTY_LIST = [null, undefined, "", NaN]\<close> and \<open>EMPTY_LIST.includes(value)\<close>.\<close>

definition empty_list :: "'n number_host \<Rightarrow> 'n jsval list" where
  "empty_list H = [JNull, JUndefined, JStr '''', JNum (nan H)]"

definition empty_list_includes :: "'n number_host \<Rightarrow> 'n jsval \<Rightarrow> bool" where
  "empty_list_includes H v = list_ex (\<lambda>e. same_value_zero H v e) (empty_list H)"

section \<open>Hexadecimal digits\<close>

definition is_hex :: "char \<Rightarrow> bool" where
  "is_hex c \<longleftrightarrow>
     ((48::nat) \<le> of_char c \<and> of_char c \<le> (57::nat)) \<or>
     ((65::nat) \<le> of_char c \<and> of_char c \<le> (70::nat)) \<or>
     ((97::nat) \<le> of_char c \<and> of_char c \<le> (102::nat))"

definition hex_value :: "char \<Rightarrow> nat" where
  "hex_value c =
     (if of_char c \<le> (57::nat) then of_char c - 48
      else if of_char c \<le> (70::nat) then of_char c - 55 else of_char c - 87)"

section \<open>An engine on integers\<close>

text \<open>
  \<open>int_host\<close>: numbers are integers, \<open>None\<close> is NaN. ToNumber strips spaces, reads an
  optionally signed decimal numeral and maps the empty string to 0, as JavaScript does;
  any other text is NaN here (JavaScript reads fractions and exponents as well, which
  this engine does not represent).
\<close>

fun nat_to_dec :: "nat \<Rightarrow> string" where
  "nat_to_dec n =
     (if n < 10 then [char_of (48 + n)] else nat_to_dec (n div 10) @ [char_of (48 + n mod 10)])"

declare nat_to_dec.simps [simp del]

definition int_to_dec :: "int \<Rightarrow> string" where
  "int_to_dec i = (if i < 0 then CHR ''-'' # nat_to_dec (nat (- i)) else nat_to_dec (nat i))"

definition dec_value :: "string \<Rightarrow> int option" where
  "dec_value d = (if d \<noteq> [] \<and> list_all is_digit d then Some (int (digits_value d)) else None)"

definition int_to_number :: "string \<Rightarrow> int option" where
  "int_to_number s =
     (let t = rev (dropWhile (\<lambda>c. c = CHR '' '') (rev (dropWhile (\<lambda>c. c = CHR '' '') s)))
      in case t of
           [] \<Rightarrow> Some 0
         | c # r \<Rightarrow>
             if c = CHR ''-'' then map_option uminus (dec_value r)
             else if c = CHR ''+'' then dec_value r
             else dec_value t)"

definition int_host :: "int option number_host" where
  "int_host =
     \<lparr>to_number = int_to_number,
      number_to_string = (\<lambda>n. case n of None \<Rightarrow> ''NaN'' | Some i \<Rightarrow> int_to_dec i),
      is_nan = (\<lambda>n. n = None),
      nan = None\<rparr>"

declare empty_list_includes_def [obj_simps] empty_list_def [obj_simps]
  int_host_def [obj_simps] int_to_number_def [obj_simps] int_to_dec_def [obj_simps]
  dec_value_def [obj_simps]

section \<open>Lemmas\<close>

lemma empty_list_includes_iff:
  "empty_list_includes H v \<longleftrightarrow>
     v = JNull \<or> v = JUndefined \<or> v = JStr '''' \<or>
     (\<exists>n. v = JNum n \<and> is_nan H n \<and> is_nan H (nan H)) \<or> v = JNum (nan H)"
  by (cases v) (auto simp: empty_list_includes_def empty_list_def)

lemma empty_list_includes_JBool [simp]: "\<not> empty_list_includes H (JBool b)"
  by (simp add: empty_list_includes_iff)

lemma empty_list_includes_JStr [simp]: "empty_list_includes H (JStr s) \<longleftrightarrow> s = ''''"
  by (simp add: empty_list_includes_iff)

lemma empty_list_includes_JNum [simp]:
  "number_host_ok H \<Longrightarrow> empty_list_includes H (JNum n) \<longleftrightarrow> is_nan H n"
  by (auto simp: empty_list_includes_iff number_host_ok_def)

lemma empty_list_includes_JNull [simp]: "empty_list_includes H JNull"
  and empty_list_includes_JUndefined [simp]: "empty_list_includes H JUndefined"
  by (simp_all add: empty_list_includes_iff)


subsection \<open>The integer engine satisfies the interface\<close>

lemma digits_value_snoc: "digits_value (xs @ [c]) = 10 * digits_value xs + (of_char c - 48)"
  by (simp add: digits_value_def)

lemma nat_to_dec_digits:
  "nat_to_dec n \<noteq> [] \<and> list_all is_digit (nat_to_dec n) \<and> digits_value (nat_to_dec n) = n"
proof (induction n rule: nat_to_dec.induct)
  case (1 n)
  have d: "of_char (char_of (48 + m) :: char) = 48 + m" if "m < 10" for m :: nat
    using that by simp
  show ?case
  proof (cases "n < 10")
    case True
    then show ?thesis
      by (simp add: nat_to_dec.simps [of n] d is_digit_def digits_value_def)
  next
    case False
    have m: "n mod 10 < 10" by simp
    with False "1.IH" show ?thesis
      by (simp add: nat_to_dec.simps [of n] d [OF m] is_digit_def digits_value_snoc)
  qed
qed

lemma digits_not_space:
  assumes "list_all is_digit s"
  shows "dropWhile (\<lambda>c. c = CHR '' '') s = s" and "dropWhile (\<lambda>c. c = CHR '' '') (rev s) = rev s"
proof -
  have nsp: "\<And>c. c \<in> set s \<Longrightarrow> c \<noteq> CHR '' ''"
    using assms by (auto simp: list_all_iff is_digit_def)
  show "dropWhile (\<lambda>c. c = CHR '' '') s = s"
    by (rule dropWhile_none) (rule nsp)
  show "dropWhile (\<lambda>c. c = CHR '' '') (rev s) = rev s"
    by (rule dropWhile_none) (simp add: nsp)
qed

lemma trim_spaces_none:
  "(\<And>x. x \<in> set s \<Longrightarrow> x \<noteq> CHR '' '') \<Longrightarrow>
   rev (dropWhile (\<lambda>c. c = CHR '' '') (rev (dropWhile (\<lambda>c. c = CHR '' '') s))) = s"
proof -
  assume nsp: "\<And>x. x \<in> set s \<Longrightarrow> x \<noteq> CHR '' ''"
  then have "dropWhile (\<lambda>c. c = CHR '' '') s = s" by (rule dropWhile_none)
  moreover have "dropWhile (\<lambda>c. c = CHR '' '') (rev s) = rev s"
    by (rule dropWhile_none) (simp add: nsp)
  ultimately show ?thesis by simp
qed

lemma int_to_number_int_to_dec: "int_to_number (int_to_dec i) = Some i"
proof -
  let ?t = "nat_to_dec (nat \<bar>i\<bar>)"
  obtain c r where cr: "?t = c # r"
    using nat_to_dec_digits [of "nat \<bar>i\<bar>"] by (cases ?t) auto
  have dig: "list_all is_digit ?t" and val: "digits_value ?t = nat \<bar>i\<bar>"
    using nat_to_dec_digits by blast+
  have nsp: "\<And>x. x \<in> set ?t \<Longrightarrow> x \<noteq> CHR '' ''"
    using dig by (auto simp: list_all_iff is_digit_def)
  have dec: "dec_value ?t = Some (int (nat \<bar>i\<bar>))"
    using dig val cr by (simp add: dec_value_def)
  have c: "c \<noteq> CHR ''-''" "c \<noteq> CHR ''+''"
    using dig cr by (auto simp: is_digit_def)
  show ?thesis
  proof (cases "i < 0")
    case True
    then have d: "int_to_dec i = CHR ''-'' # ?t"
      by (simp add: int_to_dec_def)
    have "int_to_number (CHR ''-'' # ?t) = map_option uminus (dec_value ?t)"
      unfolding int_to_number_def using nsp by (subst trim_spaces_none) auto
    with d dec True show ?thesis by simp
  next
    case False
    then have d: "int_to_dec i = ?t"
      by (simp add: int_to_dec_def)
    have "int_to_number ?t = dec_value ?t"
      unfolding int_to_number_def using nsp c cr by (subst trim_spaces_none) auto
    with d dec False show ?thesis by simp
  qed
qed

lemma int_host_ok: "number_host_ok int_host"
  unfolding number_host_ok_def
proof (intro conjI allI)
  fix n :: "int option"
  show "is_nan int_host n \<or> to_number int_host (number_to_string int_host n) = n"
    by (cases n) (simp_all add: int_host_def int_to_number_int_to_dec)
qed (simp add: int_host_def)

end
