(* ===== verification/Utf8.thy ===== *)
theory Utf8
  imports Prelude
begin

text \<open>
  UTF-8, the encoding in which the model writes JavaScript strings as byte strings.
  \<open>utf8_encode\<close> encodes a code point; \<open>utf8_decode\<close> is the UTF-8 decoder of the
  WHATWG Encoding standard, which \<open>URLSearchParams\<close> applies to every percent-decoded
  name and value (src/index.ts line 97): each maximal ill-formed subsequence becomes
  U+FFFD. \<open>utf8_sanitize\<close> is decoding followed by encoding, what a byte string
  becomes when it passes through a JavaScript string, and \<open>utf8_valid\<close> says that
  a byte string is the encoding of a JavaScript string without lone surrogates.
\<close>

definition utf8_encode :: "nat \<Rightarrow> string" where
  "utf8_encode u =
     (if u < 0x80 then [char_of u]
      else if u < 0x800 then [char_of (0xC0 + u div 64), char_of (0x80 + u mod 64)]
      else if u < 0x10000 then
        [char_of (0xE0 + u div 4096), char_of (0x80 + u div 64 mod 64), char_of (0x80 + u mod 64)]
      else
        [char_of (0xF0 + u div 262144), char_of (0x80 + u div 4096 mod 64),
         char_of (0x80 + u div 64 mod 64), char_of (0x80 + u mod 64)])"

definition utf8_lead :: "nat \<Rightarrow> (nat \<times> nat \<times> nat \<times> nat) option" where
  "utf8_lead x =
     (if 0xC2 \<le> x \<and> x \<le> 0xDF then Some (1, x - 0xC0, 0x80, 0xBF)
      else if x = 0xE0 then Some (2, 0, 0xA0, 0xBF)
      else if x = 0xED then Some (2, 0xD, 0x80, 0x9F)
      else if 0xE1 \<le> x \<and> x \<le> 0xEF then Some (2, x - 0xE0, 0x80, 0xBF)
      else if x = 0xF0 then Some (3, 0, 0x90, 0xBF)
      else if x = 0xF4 then Some (3, 4, 0x80, 0x8F)
      else if 0xF1 \<le> x \<and> x \<le> 0xF3 then Some (3, x - 0xF0, 0x80, 0xBF)
      else None)"

fun utf8_conts :: "nat \<Rightarrow> nat \<Rightarrow> nat \<Rightarrow> nat \<Rightarrow> string \<Rightarrow> (nat \<times> string) + string" where
  "utf8_conts 0 acc lo hi s = Inl (acc, s)"
| "utf8_conts (Suc n) acc lo hi [] = Inr []"
| "utf8_conts (Suc n) acc lo hi (c # r) =
     (if lo \<le> of_char c \<and> of_char c \<le> hi
      then utf8_conts n (64 * acc + (of_char c - 0x80)) 0x80 0xBF r
      else Inr (c # r))"

function utf8_decode :: "string \<Rightarrow> nat list" where
  "utf8_decode [] = []"
| "utf8_decode (b # r) =
     (if of_char b < (0x80::nat) then of_char b # utf8_decode r
      else (case utf8_lead (of_char b) of
              None \<Rightarrow> 0xFFFD # utf8_decode r
            | Some (n, a, lo, hi) \<Rightarrow>
                (case utf8_conts n a lo hi r of
                   Inl (u, r') \<Rightarrow> u # utf8_decode r'
                 | Inr r' \<Rightarrow> 0xFFFD # utf8_decode r')))"
  by pat_completeness auto
termination
proof -
  have len: "(utf8_conts n acc lo hi s = Inl (u, r) \<longrightarrow> length r \<le> length s) \<and>
      (utf8_conts n acc lo hi s = Inr r \<longrightarrow> length r \<le> length s)" for n acc lo hi s u r
    by (induction n acc lo hi s arbitrary: u r rule: utf8_conts.induct) (auto simp: le_SucI)
  show ?thesis
    by (relation "measure length") (auto dest: len [THEN conjunct1, rule_format]
        len [THEN conjunct2, rule_format] simp: less_Suc_eq_le)
qed

definition scalar_value :: "nat \<Rightarrow> bool" where
  "scalar_value u \<longleftrightarrow> u < 0x110000 \<and> \<not> (0xD800 \<le> u \<and> u < 0xE000)"

definition utf8_sanitize :: "string \<Rightarrow> string" where
  "utf8_sanitize s = concat (map utf8_encode (utf8_decode s))"

definition utf8_valid :: "string \<Rightarrow> bool" where
  "utf8_valid s \<longleftrightarrow> utf8_sanitize s = s"

lemma of_char_char_of_small [simp]: "x < 256 \<Longrightarrow> of_char (char_of x :: char) = (x :: nat)"
  by simp

lemma decomp3: "(u::nat) = 4096 * (u div 4096) + 64 * (u div 64 mod 64) + u mod 64"
proof -
  have a: "u = 64 * (u div 64) + u mod 64" by simp
  have "u div 64 = 64 * (u div 64 div 64) + u div 64 mod 64" by simp
  moreover have "u div 64 div 64 = u div 4096" using div_mult2_eq [of u 64 64] by simp
  ultimately have b: "u div 64 = 64 * (u div 4096) + u div 64 mod 64" by simp
  from a b have "u = 64 * (64 * (u div 4096) + u div 64 mod 64) + u mod 64" by metis
  then show ?thesis by (simp add: distrib_left)
qed

lemma utf8_decode_3:
  assumes q: "q < 16" and m: "m < 64" and l: "l < 64"
    and lo: "q = 0 \<Longrightarrow> 32 \<le> m" and hi: "q = 13 \<Longrightarrow> m < 32"
  shows "utf8_decode (char_of (0xE0 + q) # char_of (0x80 + m) # char_of (0x80 + l) # s) =
           (4096 * q + 64 * m + l) # utf8_decode s"
proof -
  have lt: "0xE0 + q < (256::nat)" "0x80 + m < (256::nat)" "0x80 + l < (256::nat)"
    using q m l by simp_all
  consider "q = 0" | "q = 13" | "q \<noteq> 0" "q \<noteq> 13" by blast
  then show ?thesis
  proof cases
    case 1
    with lo m l lt show ?thesis by (simp add: utf8_lead_def numeral_2_eq_2 numeral_3_eq_3)
  next
    case 2
    with hi m l lt show ?thesis by (simp add: utf8_lead_def numeral_2_eq_2 numeral_3_eq_3)
  next
    case 3
    with q m l lt show ?thesis by (simp add: utf8_lead_def numeral_2_eq_2 numeral_3_eq_3)
  qed
qed

lemma decomp4:
  "(u::nat) = 262144 * (u div 262144) + 4096 * (u div 4096 mod 64) + 64 * (u div 64 mod 64) + u mod 64"
proof -
  have "u div 4096 = 64 * (u div 4096 div 64) + u div 4096 mod 64" by simp
  moreover have "u div 4096 div 64 = u div 262144" using div_mult2_eq [of u 4096 64] by simp
  ultimately have b: "u div 4096 = 64 * (u div 262144) + u div 4096 mod 64" by simp
  from decomp3 [of u] b
  have "u = 4096 * (64 * (u div 262144) + u div 4096 mod 64) + 64 * (u div 64 mod 64) + u mod 64"
    by metis
  then show ?thesis by (simp add: distrib_left)
qed

lemma utf8_decode_4:
  assumes p: "p < 5" and q: "q < 64" and m: "m < 64" and l: "l < 64"
    and lo: "p = 0 \<Longrightarrow> 16 \<le> q" and hi: "p = 4 \<Longrightarrow> q < 16"
  shows "utf8_decode (char_of (0xF0 + p) # char_of (0x80 + q) # char_of (0x80 + m) #
                      char_of (0x80 + l) # s) =
           (262144 * p + 4096 * q + 64 * m + l) # utf8_decode s"
proof -
  have lt: "0xF0 + p < (256::nat)" "0x80 + q < (256::nat)" "0x80 + m < (256::nat)"
    "0x80 + l < (256::nat)"
    using p q m l by simp_all
  consider "p = 0" | "p = 4" | "p \<noteq> 0" "p \<noteq> 4" by blast
  then show ?thesis
  proof cases
    case 1
    with lo q m l lt show ?thesis by (simp add: utf8_lead_def numeral_2_eq_2 numeral_3_eq_3)
  next
    case 2
    with hi m l lt show ?thesis by (simp add: utf8_lead_def numeral_2_eq_2 numeral_3_eq_3)
  next
    case 3
    with p q m l lt show ?thesis by (simp add: utf8_lead_def numeral_2_eq_2 numeral_3_eq_3)
  qed
qed

lemma utf8_decode_encode:
  assumes "scalar_value u"
  shows "utf8_decode (utf8_encode u @ s) = u # utf8_decode s"
proof -
  consider (a) "u < 0x80" | (b) "0x80 \<le> u" "u < 0x800" | (c) "0x800 \<le> u" "u < 0x10000"
    | (d) "0x10000 \<le> u" "u < 0x110000"
    using assms by (force simp: scalar_value_def)
  then show ?thesis
  proof cases
    case a
    then show ?thesis by (simp add: utf8_encode_def)
  next
    case b
    have l: "0xC2 \<le> 0xC0 + u div 64" "0xC0 + u div 64 \<le> (0xDF::nat)" using b by auto
    show ?thesis using b l by (simp add: utf8_encode_def utf8_lead_def)
  next
    case c
    let ?q = "u div 4096" and ?m = "u div 64 mod 64" and ?l = "u mod 64"
    have q: "?q < 16" using c by simp
    have lo: "?q = 0 \<Longrightarrow> 32 \<le> ?m" using c by simp
    have hi: "?q = 13 \<Longrightarrow> ?m < 32"
    proof -
      assume "?q = 13"
      with decomp3 [of u] have ue: "u = 53248 + 64 * ?m + ?l" by simp
      have "u < 57344" using ue by simp
      then have "u < 55296" using assms by (auto simp: scalar_value_def)
      with ue show "?m < 32" by simp
    qed
    have "utf8_decode (utf8_encode u @ s) = (4096 * ?q + 64 * ?m + ?l) # utf8_decode s"
      using c utf8_decode_3 [OF q _ _ lo hi, where s = s] by (simp add: utf8_encode_def)
    then show ?thesis using decomp3 [of u] by simp
  next
    case d
    let ?p = "u div 262144" and ?q = "u div 4096 mod 64" and ?m = "u div 64 mod 64"
      and ?l = "u mod 64"
    have ue: "u = 262144 * ?p + 4096 * ?q + 64 * ?m + ?l" by (rule decomp4)
    have p: "?p < 5" using d by simp
    have lo: "?p = 0 \<Longrightarrow> 16 \<le> ?q" using d ue by simp
    have hi: "?p = 4 \<Longrightarrow> ?q < 16" using d ue by simp
    have "utf8_decode (utf8_encode u @ s) = (262144 * ?p + 4096 * ?q + 64 * ?m + ?l) # utf8_decode s"
      using d utf8_decode_4 [OF p _ _ _ lo hi, where s = s] by (simp add: utf8_encode_def)
    then show ?thesis using ue by simp
  qed
qed

lemma utf8_decode_concat:
  "list_all scalar_value us \<Longrightarrow> utf8_decode (concat (map utf8_encode us) @ s) = us @ utf8_decode s"
  by (induction us) (simp_all add: utf8_decode_encode)

lemma utf8_valid_encode: "list_all scalar_value us \<Longrightarrow> utf8_valid (concat (map utf8_encode us))"
  using utf8_decode_concat [of us "[]"] by (simp add: utf8_valid_def utf8_sanitize_def)

lemma utf8_decode_ascii: "list_all (\<lambda>c. of_char c < (128::nat)) s \<Longrightarrow> utf8_decode s = map of_char s"
  by (induction s) simp_all

lemma utf8_valid_ascii: "list_all (\<lambda>c. of_char c < (128::nat)) s \<Longrightarrow> utf8_valid s"
proof -
  assume a: "list_all (\<lambda>c. of_char c < (128::nat)) s"
  have "concat (map utf8_encode (map of_char s)) = s"
    using a by (induction s) (simp_all add: utf8_encode_def)
  with utf8_decode_ascii [OF a] show ?thesis by (simp add: utf8_valid_def utf8_sanitize_def)
qed

lemma utf8_conts_bounds:
  "utf8_conts (Suc n) acc lo hi s = Inl (u, r) \<Longrightarrow> 128 \<le> lo \<Longrightarrow> hi \<le> 191 \<Longrightarrow>
   64 ^ Suc n * acc + 64 ^ n * (lo - 128) \<le> u \<and> u < 64 ^ Suc n * acc + 64 ^ n * (hi - 127)"
proof (induction n arbitrary: acc lo hi s)
  case 0
  then show ?case by (cases s) (auto split: if_splits)
next
  case (Suc n)
  obtain c t where s: "s = c # t" using Suc.prems(1) by (cases s) auto
  let ?x = "of_char c :: nat"
  have x: "lo \<le> ?x" "?x \<le> hi" and rec: "utf8_conts (Suc n) (64 * acc + (?x - 128)) 128 191 t = Inl (u, r)"
    using Suc.prems(1) s by (auto split: if_splits)
  from Suc.IH [OF rec] have b: "64 ^ Suc n * (64 * acc + (?x - 128)) \<le> u"
    "u < 64 ^ Suc n * (64 * acc + (?x - 128)) + 64 ^ n * 64" by simp_all
  have eq: "64 ^ Suc n * (64 * acc + (?x - 128)) = 64 ^ Suc (Suc n) * acc + 64 ^ Suc n * (?x - 128)"
    by (simp add: distrib_left)
  have "lo - 128 \<le> ?x - 128" using x by simp
  then have "64 ^ Suc n * (lo - 128) \<le> 64 ^ Suc n * (?x - 128)" by (rule mult_le_mono2)
  then have "64 ^ Suc (Suc n) * acc + 64 ^ Suc n * (lo - 128) \<le> 64 ^ Suc n * (64 * acc + (?x - 128))"
    unfolding eq by simp
  moreover have "64 ^ Suc n * (64 * acc + (?x - 128)) + 64 ^ n * 64 \<le>
      64 ^ Suc (Suc n) * acc + 64 ^ Suc n * (hi - 127)"
  proof -
    have "?x - 128 + 1 \<le> hi - 127" using x Suc.prems(2) by simp
    then have "64 ^ Suc n * (?x - 128 + 1) \<le> 64 ^ Suc n * (hi - 127)" by (rule mult_le_mono2)
    then show ?thesis unfolding eq by (simp add: distrib_left)
  qed
  ultimately show ?case using b by linarith
qed

lemma utf8_lead_scalar:
  assumes l: "utf8_lead x = Some (n, a, lo, hi)" and c: "utf8_conts n a lo hi r = Inl (u, r')"
  shows "scalar_value u"
proof -
  from l consider
      (two) "x \<le> 0xDF" "n = Suc 0" "a = x - 0xC0" "lo = 0x80" "hi = 0xBF"
    | (e0) "n = Suc (Suc 0)" "a = 0" "lo = 0xA0" "hi = 0xBF"
    | (ed) "n = Suc (Suc 0)" "a = 0xD" "lo = 0x80" "hi = 0x9F"
    | (e1) "0xE1 \<le> x" "x \<le> 0xEF" "x \<noteq> 0xED" "n = Suc (Suc 0)" "a = x - 0xE0" "lo = 0x80" "hi = 0xBF"
    | (f0) "n = Suc (Suc (Suc 0))" "a = 0" "lo = 0x90" "hi = 0xBF"
    | (f4) "n = Suc (Suc (Suc 0))" "a = 4" "lo = 0x80" "hi = 0x8F"
    | (f1) "0xF1 \<le> x" "x \<le> 0xF3" "n = Suc (Suc (Suc 0))" "a = x - 0xF0" "lo = 0x80" "hi = 0xBF"
    by (auto simp: utf8_lead_def numeral_2_eq_2 numeral_3_eq_3 split: if_splits)
  then show ?thesis
  proof cases
    case two
    with c utf8_conts_bounds [of 0 a lo hi r u r']
    have "u < 64 * (x - 192) + 64" "x - 192 \<le> 31" by simp_all
    then have "u < 2048" by linarith
    then show ?thesis by (simp add: scalar_value_def)
  next
    case e0
    with c utf8_conts_bounds [of "Suc 0" a lo hi r u r'] show ?thesis by (simp add: scalar_value_def)
  next
    case ed
    with c utf8_conts_bounds [of "Suc 0" a lo hi r u r'] show ?thesis by (simp add: scalar_value_def)
  next
    case e1
    with c utf8_conts_bounds [of "Suc 0" a lo hi r u r']
    have "4096 * a \<le> u" "u < 4096 * a + 4096" "1 \<le> a" "a \<le> 15" "a \<noteq> 13" by simp_all
    then show ?thesis by (simp add: scalar_value_def)
  next
    case f0
    with c utf8_conts_bounds [of "Suc (Suc 0)" a lo hi r u r'] show ?thesis by (simp add: scalar_value_def)
  next
    case f4
    with c utf8_conts_bounds [of "Suc (Suc 0)" a lo hi r u r'] show ?thesis by (simp add: scalar_value_def)
  next
    case f1
    with c utf8_conts_bounds [of "Suc (Suc 0)" a lo hi r u r']
    have "262144 * a \<le> u" "u < 262144 * a + 262144" "1 \<le> a" "a \<le> 3" by simp_all
    then show ?thesis by (simp add: scalar_value_def)
  qed
qed

lemma utf8_decode_scalar: "list_all scalar_value (utf8_decode s)"
proof (induction s rule: utf8_decode.induct)
  case (2 b r)
  show ?case
    using "2.IH"
    by (auto simp: scalar_value_def split: option.splits sum.splits prod.splits
        dest: utf8_lead_scalar [unfolded scalar_value_def])
qed simp

lemma utf8_valid_sanitize: "utf8_valid (utf8_sanitize s)"
  unfolding utf8_sanitize_def by (rule utf8_valid_encode [OF utf8_decode_scalar])

text \<open>decoding inverts encoding: the bytes of any sequence of Unicode scalar values
  decode to that sequence, whatever follows them.\<close>

theorem utf8_roundtrip:
  "list_all scalar_value us \<Longrightarrow> utf8_decode (concat (map utf8_encode us)) = us"
  using utf8_decode_concat [of us "[]"] by simp

theorem utf8_roundtrip_witness:
  "list_all scalar_value [0x41, 0xE9, 0x20AC] \<and>
   utf8_decode (concat (map utf8_encode [0x41, 0xE9, 0x20AC])) = [0x41, 0xE9, 0x20AC]"
proof -
  have s: "list_all scalar_value [0x41, 0xE9, 0x20AC]" by (simp add: scalar_value_def)
  show ?thesis using utf8_roundtrip [OF s] s by simp
qed

end
