(* ===== verification/Json.thy ===== *)
theory Json
  imports JsValue Utf8
begin

text \<open>
  \<open>JSON.parse\<close>, which \<open>checkType\<close> applies to the query value of a boolean field
  (src/index.ts line 88). The parser follows the JSON grammar of ECMA-404 as
  \<open>JSON.parse\<close> does: white space, the literals, numbers, strings with their escapes,
  arrays and objects, nested to any depth; object members are defined in text order
  with CreateDataProperty (\<open>obj_define\<close>: a repeated key keeps its first position and
  takes its last value, and \<open>__proto__\<close> is an ordinary own key). Any other text raises
  \<open>SyntaxError\<close>.

  Strings are byte strings (UTF-8): a \<open>\u\<close> escape is written as the UTF-8 encoding of
  its code point, and a surrogate pair as that of the code point it denotes. A lone
  surrogate has no UTF-8 encoding; such a text lies outside the model and gives
  \<open>Unmodelled\<close>, which is not a JavaScript outcome.

  The parser is recursive descent over the text: \<open>json_value\<close>, \<open>json_elements\<close>
  (after \<open>[\<close>) and \<open>json_members\<close> (after \<open>{\<close>) return the value and the rest of
  the text. They carry fuel, one unit per call, and \<open>None\<close> is running out of it;
  \<open>json_parse\<close> gives \<open>2 n + 1\<close> units to a text of length \<open>n\<close>, and the theorem
  \<open>json_parse_fuel_enough\<close> shows that this never runs out.
\<close>

section \<open>Lexical structure\<close>

datatype parse_error = SyntaxError | Unmodelled

definition json_ws :: "char \<Rightarrow> bool" where
  "json_ws c \<longleftrightarrow> c = CHR '' '' \<or> c = CHR 0x09 \<or> c = CHR 0x0A \<or> c = CHR 0x0D"

definition json_skip :: "string \<Rightarrow> string" where
  "json_skip s = dropWhile json_ws s"

text \<open>The integer part of a number: \<open>0\<close>, or a non-zero digit and more digits.\<close>

definition json_lex_int :: "string \<Rightarrow> (string \<times> string) option" where
  "json_lex_int s =
     (case s of
        [] \<Rightarrow> None
      | c # r \<Rightarrow>
          if c = CHR ''0'' then Some (''0'', r)
          else if is_digit c then Some (c # takeWhile is_digit r, dropWhile is_digit r)
          else None)"

text \<open>An optional fraction: a point and at least one digit.\<close>

definition json_lex_frac :: "string \<Rightarrow> (string \<times> string) option" where
  "json_lex_frac s =
     (case s of
        [] \<Rightarrow> Some ([], [])
      | c # r \<Rightarrow>
          if c = CHR ''.''
          then (if takeWhile is_digit r = [] then None
                else Some (c # takeWhile is_digit r, dropWhile is_digit r))
          else Some ([], s))"

text \<open>An optional exponent: \<open>e\<close> or \<open>E\<close>, an optional sign, at least one digit.\<close>

definition json_lex_exp :: "string \<Rightarrow> (string \<times> string) option" where
  "json_lex_exp s =
     (case s of
        [] \<Rightarrow> Some ([], [])
      | c # r \<Rightarrow>
          if c = CHR ''e'' \<or> c = CHR ''E''
          then (let (sg, r') = (case r of
                                  x # r'' \<Rightarrow> if x = CHR ''+'' \<or> x = CHR ''-'' then ([x], r'') else ([], r)
                                | [] \<Rightarrow> ([], r))
                in if takeWhile is_digit r' = [] then None
                   else Some (c # sg @ takeWhile is_digit r', dropWhile is_digit r'))
          else Some ([], s))"

definition json_lex_number :: "string \<Rightarrow> (string \<times> string) option" where
  "json_lex_number s =
     (let (sg, s1) = (case s of c # r \<Rightarrow> if c = CHR ''-'' then (''-'', r) else ([], s) | [] \<Rightarrow> ([], s))
      in case json_lex_int s1 of
           None \<Rightarrow> None
         | Some (i, s2) \<Rightarrow>
             (case json_lex_frac s2 of
                None \<Rightarrow> None
              | Some (f, s3) \<Rightarrow>
                  (case json_lex_exp s3 of
                     None \<Rightarrow> None
                   | Some (e, s4) \<Rightarrow> Some (sg @ i @ f @ e, s4))))"

text \<open>The one-character escapes.\<close>

fun json_escape :: "char \<Rightarrow> char option" where
  "json_escape c =
     (if c = CHR 0x22 then Some (CHR 0x22)
      else if c = CHR 0x5C then Some (CHR 0x5C)
      else if c = CHR ''/'' then Some (CHR ''/'')
      else if c = CHR ''b'' then Some (CHR 0x08)
      else if c = CHR ''f'' then Some (CHR 0x0C)
      else if c = CHR ''n'' then Some (CHR 0x0A)
      else if c = CHR ''r'' then Some (CHR 0x0D)
      else if c = CHR ''t'' then Some (CHR 0x09)
      else None)"

definition hex4_value :: "string \<Rightarrow> nat option" where
  "hex4_value s =
     (if length s = 4 \<and> list_all is_hex s
      then Some (foldl (\<lambda>n c. 16 * n + hex_value c) 0 s) else None)"

text \<open>A \<open>\u\<close> escape, after the \<open>u\<close>: four hexadecimal digits, and for a high
  surrogate a second escape with the low surrogate; the result is the UTF-8 encoding
  of the code point and the rest of the text.\<close>

definition json_unicode_escape :: "string \<Rightarrow> parse_error + (string \<times> string)" where
  "json_unicode_escape s =
     (case hex4_value (take 4 s) of
        None \<Rightarrow> Inl SyntaxError
      | Some u \<Rightarrow>
          if 0xD800 \<le> u \<and> u < 0xDC00 then
            (case drop 4 s of
               b # v # r \<Rightarrow>
                 if b = CHR 0x5C \<and> v = CHR ''u'' then
                   (case hex4_value (take 4 r) of
                      None \<Rightarrow> Inl SyntaxError
                    | Some l \<Rightarrow>
                        if 0xDC00 \<le> l \<and> l < 0xE000
                        then Inr (utf8_encode (0x10000 + (u - 0xD800) * 0x400 + (l - 0xDC00)), drop 4 r)
                        else Inl Unmodelled)
                 else Inl Unmodelled
             | _ \<Rightarrow> Inl Unmodelled)
          else if 0xDC00 \<le> u \<and> u < 0xE000 then Inl Unmodelled
          else Inr (utf8_encode u, drop 4 s))"

text \<open>The characters of a string after its opening quote, up to the closing quote,
  and the rest of the text after it.\<close>

function (sequential) json_string_chars :: "string \<Rightarrow> parse_error + (string \<times> string)" where
  "json_string_chars [] = Inl SyntaxError"
| "json_string_chars (c # r) =
     (if c = CHR 0x22 then Inr ([], r)
      else if c = CHR 0x5C then
        (case r of
           [] \<Rightarrow> Inl SyntaxError
         | e # r' \<Rightarrow>
             if e = CHR ''u'' then
               (case json_unicode_escape r' of
                  Inl err \<Rightarrow> Inl err
                | Inr (b, r'') \<Rightarrow> map_sum id (\<lambda>(t, rest). (b @ t, rest)) (json_string_chars r''))
             else (case json_escape e of
                     None \<Rightarrow> Inl SyntaxError
                   | Some x \<Rightarrow> map_sum id (\<lambda>(t, rest). (x # t, rest)) (json_string_chars r')))
      else if of_char c < (32::nat) then Inl SyntaxError
      else map_sum id (\<lambda>(t, rest). (c # t, rest)) (json_string_chars r))"
  by pat_completeness auto
termination
proof -
  have esc: "length r'' < length r'" if e: "json_unicode_escape r' = Inr (b, r'')" for r' b r''
  proof -
    from e obtain u where "hex4_value (take 4 r') = Some u"
      by (auto simp: json_unicode_escape_def split: option.splits)
    then have "4 \<le> length r'" by (auto simp: hex4_value_def split: if_splits)
    then have "length (drop 4 r') < length r'" by simp
    with e show ?thesis
      by (auto simp: json_unicode_escape_def split: option.splits if_splits list.splits
          dest!: arg_cong [where f = length])
  qed
  show ?thesis
    by (relation "measure length") (auto dest: esc)
qed

section \<open>Values\<close>

fun json_value :: "nat \<Rightarrow> 'n number_host \<Rightarrow> string \<Rightarrow> (parse_error + ('n jsval \<times> string)) option"
and json_elements ::
  "nat \<Rightarrow> 'n number_host \<Rightarrow> 'n jsval list \<Rightarrow> string \<Rightarrow> (parse_error + ('n jsval list \<times> string)) option"
and json_members ::
  "nat \<Rightarrow> 'n number_host \<Rightarrow> 'n jsval jsobj \<Rightarrow> string \<Rightarrow> (parse_error + ('n jsval jsobj \<times> string)) option"
where
  "json_value 0 H s = None"
| "json_value (Suc f) H s =
     (case json_skip s of
        [] \<Rightarrow> Some (Inl SyntaxError)
      | c # r \<Rightarrow>
          if c = CHR ''['' then
            (if take 1 (json_skip r) = '']'' then Some (Inr (JArr [], drop 1 (json_skip r)))
             else map_option (map_sum id (\<lambda>(xs, r'). (JArr xs, r'))) (json_elements f H [] r))
          else if c = CHR ''{'' then
            (if take 1 (json_skip r) = ''}'' then Some (Inr (JObj [], drop 1 (json_skip r)))
             else map_option (map_sum id (\<lambda>(ps, r'). (JObj ps, r'))) (json_members f H [] r))
          else if c = CHR 0x22 then Some (map_sum id (\<lambda>(t, r'). (JStr t, r')) (json_string_chars r))
          else if take 4 (c # r) = ''true'' then Some (Inr (JBool True, drop 3 r))
          else if take 5 (c # r) = ''false'' then Some (Inr (JBool False, drop 4 r))
          else if take 4 (c # r) = ''null'' then Some (Inr (JNull, drop 3 r))
          else (case json_lex_number (c # r) of
                  None \<Rightarrow> Some (Inl SyntaxError)
                | Some (t, r') \<Rightarrow> Some (Inr (JNum (to_number H t), r'))))"
| "json_elements 0 H acc s = None"
| "json_elements (Suc f) H acc s =
     (case json_value f H s of
        None \<Rightarrow> None
      | Some (Inl e) \<Rightarrow> Some (Inl e)
      | Some (Inr (v, r)) \<Rightarrow>
          (case json_skip r of
             [] \<Rightarrow> Some (Inl SyntaxError)
           | c # r' \<Rightarrow>
               if c = CHR '','' then json_elements f H (acc @ [v]) r'
               else if c = CHR '']'' then Some (Inr (acc @ [v], r'))
               else Some (Inl SyntaxError)))"
| "json_members 0 H acc s = None"
| "json_members (Suc f) H acc s =
     (case json_skip s of
        [] \<Rightarrow> Some (Inl SyntaxError)
      | c # r \<Rightarrow>
          if c \<noteq> CHR 0x22 then Some (Inl SyntaxError)
          else (case json_string_chars r of
                  Inl e \<Rightarrow> Some (Inl e)
                | Inr (k, r1) \<Rightarrow>
                    (case json_skip r1 of
                       [] \<Rightarrow> Some (Inl SyntaxError)
                     | d # r2 \<Rightarrow>
                         if d \<noteq> CHR '':'' then Some (Inl SyntaxError)
                         else (case json_value f H r2 of
                                 None \<Rightarrow> None
                               | Some (Inl e) \<Rightarrow> Some (Inl e)
                               | Some (Inr (v, r3)) \<Rightarrow>
                                   (case json_skip r3 of
                                      [] \<Rightarrow> Some (Inl SyntaxError)
                                    | x # r4 \<Rightarrow>
                                        if x = CHR '','' then json_members f H (obj_define acc k v) r4
                                        else if x = CHR ''}'' then Some (Inr (obj_define acc k v, r4))
                                        else Some (Inl SyntaxError))))))"

text \<open>\<open>JSON.parse(text)\<close>: one value, surrounded by white space only.\<close>

definition json_parse :: "'n number_host \<Rightarrow> string \<Rightarrow> parse_error + 'n jsval" where
  "json_parse H s =
     (case json_value (Suc (2 * length s)) H s of
        None \<Rightarrow> Inl SyntaxError
      | Some (Inl e) \<Rightarrow> Inl e
      | Some (Inr (v, r)) \<Rightarrow> if json_skip r = [] then Inr v else Inl SyntaxError)"

section \<open>Lemmas\<close>

subsection \<open>Each parser consumes input\<close>

lemma json_unicode_escape_length:
  "json_unicode_escape s = Inr (b, r) \<Longrightarrow> length r < length s"
proof -
  assume e: "json_unicode_escape s = Inr (b, r)"
  then obtain u where "hex4_value (take 4 s) = Some u"
    by (auto simp: json_unicode_escape_def split: option.splits)
  then have four: "4 \<le> length s" by (auto simp: hex4_value_def split: if_splits)
  have "length (drop 4 s) < length s" using four by simp
  then show ?thesis
    using e by (auto simp: json_unicode_escape_def split: option.splits if_splits list.splits
        dest!: arg_cong [where f = length])
qed

lemma json_skip_length: "length (json_skip s) \<le> length s"
  by (simp add: json_skip_def length_dropWhile_le)

lemma json_skip_Cons_length: "json_skip s = c # r \<Longrightarrow> length r < length s"
  using json_skip_length [of s] by simp

lemma json_string_chars_length:
  "json_string_chars r = Inr (t, r1) \<Longrightarrow> length r1 < length r"
proof (induction r arbitrary: t r1 rule: json_string_chars.induct)
  case (2 c r)
  show ?case
  proof (cases "c = CHR 0x22 \<or> c \<noteq> CHR 0x5C")
    case True
    then show ?thesis
      using "2.prems" "2.IH"(3) by (auto simp: map_sum_Inr_iff split: if_splits)
  next
    case False
    then have bs: "c \<noteq> CHR 0x22" "c = CHR 0x5C" by auto
    then obtain e r' where r: "r = e # r'" using "2.prems" by (cases r) auto
    show ?thesis
    proof (cases "e = CHR ''u''")
      case True
      with "2.prems" bs r obtain b r'' t' where u: "json_unicode_escape r' = Inr (b, r'')"
        and rec: "json_string_chars r'' = Inr (t', r1)"
        by (auto simp: map_sum_Inr_iff split: sum.splits)
      have "length r1 < length r''" using "2.IH"(1) [OF bs r True u refl rec] .
      with json_unicode_escape_length [OF u] r show ?thesis by simp
    next
      case False
      with "2.prems" bs r obtain x t' where x: "json_escape e = Some x"
        and rec: "json_string_chars r' = Inr (t', r1)"
        by (auto simp: map_sum_Inr_iff split: option.splits)
      have "length r1 < length r'" using "2.IH"(2) [OF bs r False x rec] .
      with r show ?thesis by simp
    qed
  qed
qed simp

lemma json_lex_int_length: "json_lex_int s = Some (i, r) \<Longrightarrow> length r < length s"
  by (auto simp: json_lex_int_def length_dropWhile_le less_Suc_eq_le split: list.splits if_splits)

lemma json_lex_frac_length: "json_lex_frac s = Some (i, r) \<Longrightarrow> length r \<le> length s"
  by (auto simp: json_lex_frac_def length_dropWhile_le le_SucI split: list.splits if_splits)

lemma json_lex_exp_length: "json_lex_exp s = Some (i, r) \<Longrightarrow> length r \<le> length s"
  using length_dropWhile_le [of is_digit]
  by (fastforce simp: json_lex_exp_def Let_def le_SucI split: list.splits if_splits prod.splits)

lemma json_lex_number_length: "json_lex_number s = Some (t, r) \<Longrightarrow> length r < length s"
proof -
  assume n: "json_lex_number s = Some (t, r)"
  obtain sg s1 where s1: "(case s of c # r \<Rightarrow> if c = CHR ''-'' then (''-'', r) else ([], s)
      | [] \<Rightarrow> ([], s)) = (sg, s1)" by (metis surj_pair)
  have l1: "length s1 \<le> length s" using s1 by (auto split: list.splits if_splits)
  from n s1 obtain i s2 f s3 e where
    "json_lex_int s1 = Some (i, s2)" "json_lex_frac s2 = Some (f, s3)" "json_lex_exp s3 = Some (e, r)"
    by (auto simp: json_lex_number_def split: option.splits)
  with l1 show ?thesis
    using json_lex_int_length json_lex_frac_length json_lex_exp_length
    by (meson le_less_trans less_le_trans)
qed

lemmas json_lengths = json_skip_Cons_length json_string_chars_length json_lex_number_length

lemma json_consumes:
  shows "json_value f H s = Some (Inr (v, r)) \<Longrightarrow> length r < length s"
    and "json_elements f H acc s = Some (Inr (vs, r)) \<Longrightarrow> length r < length s"
    and "json_members f H macc s = Some (Inr (ps, r)) \<Longrightarrow> length r < length s"
proof (induction f H s and f H acc s and f H macc s arbitrary: v r and vs r and ps r
    rule: json_value_json_elements_json_members.induct)
  case (2 f H s)
  obtain c t where sk: "json_skip s = c # t"
    using "2.prems" by (cases "json_skip s") auto
  have ct: "length t < length s" using json_skip_Cons_length [OF sk] .
  have st: "length (drop k (json_skip t)) \<le> length t" for k
    using json_skip_length [of t] by simp
  show ?case
  proof (cases "c = CHR ''['' \<or> c = CHR ''{''")
    case br: True
    show ?thesis
    proof (cases "take 1 (json_skip t) = '']'' \<and> c = CHR ''['' \<or> take 1 (json_skip t) = ''}'' \<and> c = CHR ''{''")
      case True
      with "2.prems" sk br have "r = drop 1 (json_skip t)" by auto
      with ct st [of 1] show ?thesis by simp
    next
      case False
      show ?thesis
      proof (cases "c = CHR ''[''")
        case True
        with False "2.prems" sk obtain xs where el: "json_elements f H [] t = Some (Inr (xs, r))"
          by (auto simp: map_sum_Inr_iff)
        have "length r < length t" using "2.IH"(1) sk True False el by blast
        with ct show ?thesis by simp
      next
        case nb: False
        with br have c: "c = CHR ''{''" by simp
        with False "2.prems" sk nb obtain ps where mem: "json_members f H [] t = Some (Inr (ps, r))"
          by (auto simp: map_sum_Inr_iff)
        have "length r < length t" using "2.IH"(2) sk c nb False mem by blast
        with ct show ?thesis by simp
      qed
    qed
  next
    case False
    then show ?thesis
      using "2.prems" ct sk
      by (auto simp: map_sum_Inr_iff split: if_splits option.splits sum.splits prod.splits
          dest!: json_string_chars_length json_lex_number_length)
  qed
next
  case (4 f H acc s)
  from "4.prems" obtain v0 r0 where val: "json_value f H s = Some (Inr (v0, r0))"
    by (auto split: option.splits sum.splits)
  have l0: "length r0 < length s" using "4.IH"(1) val by blast
  from "4.prems" val obtain c r' where sk: "json_skip r0 = c # r'"
    by (cases "json_skip r0") auto
  have l1: "length r' < length r0" by (rule json_skip_Cons_length [OF sk])
  show ?case
  proof (cases "c = CHR '',''")
    case True
    with "4.prems" val sk have el: "json_elements f H (acc @ [v0]) r' = Some (Inr (vs, r))" by simp
    have "length r < length r'" using "4.IH"(2) val sk True el by blast
    with l0 l1 show ?thesis by simp
  next
    case False
    with "4.prems" val sk have "r = r'" by (auto split: if_splits)
    with l0 l1 show ?thesis by simp
  qed
next
  case (6 f H macc s)
  from "6.prems" obtain c t where sk: "json_skip s = c # t" and q: "c = CHR 0x22"
    by (cases "json_skip s") (auto split: if_splits)
  from "6.prems" sk q obtain k r1 where str: "json_string_chars t = Inr (k, r1)"
    by (auto split: sum.splits)
  from "6.prems" sk q str obtain d r2 where sk1: "json_skip r1 = d # r2" and col: "d = CHR '':''"
    by (cases "json_skip r1") (auto split: if_splits)
  from "6.prems" sk q str sk1 col obtain v0 r3 where val: "json_value f H r2 = Some (Inr (v0, r3))"
    by (auto split: option.splits sum.splits)
  have l: "length r3 < length s"
    using "6.IH"(1) [OF sk _ str _ sk1 _] q col val json_skip_Cons_length [OF sk]
      json_string_chars_length [OF str] json_skip_Cons_length [OF sk1]
    by fastforce
  from "6.prems" sk q str sk1 col val obtain x r4 where sk3: "json_skip r3 = x # r4"
    by (cases "json_skip r3") auto
  have l4: "length r4 < length r3" by (rule json_skip_Cons_length [OF sk3])
  show ?case
  proof (cases "x = CHR '',''")
    case True
    with "6.prems" sk q str sk1 col val sk3
    have mem: "json_members f H (obj_define macc k v0) r4 = Some (Inr (ps, r))" by simp
    have "length r < length r4"
      using "6.IH"(2) sk q str sk1 col val sk3 True mem by blast
    with l l4 show ?thesis by simp
  next
    case False
    with "6.prems" sk q str sk1 col val sk3 have "r = r4" by (auto split: if_splits)
    with l l4 show ?thesis by simp
  qed
qed simp_all

subsection \<open>Enough fuel\<close>

lemma json_fuel_enough:
  "(\<forall>s. 2 * length s < f \<longrightarrow> json_value f H s \<noteq> None) \<and>
   (\<forall>acc s. 2 * length s + 1 < f \<longrightarrow> json_elements f H acc s \<noteq> None) \<and>
   (\<forall>acc s. 2 * length s + 1 < f \<longrightarrow> json_members f H acc s \<noteq> None)"
proof (induction f)
  case 0
  then show ?case by simp
next
  case (Suc f)
  have IHv: "\<And>s. 2 * length s < f \<Longrightarrow> json_value f H s \<noteq> None"
    and IHe: "\<And>acc s. 2 * length s + 1 < f \<Longrightarrow> json_elements f H acc s \<noteq> None"
    and IHm: "\<And>acc s. 2 * length s + 1 < f \<Longrightarrow> json_members f H acc s \<noteq> None"
    using Suc.IH by blast+
  have v: "json_value (Suc f) H s \<noteq> None" if len: "2 * length s < Suc f" for s
  proof (cases "json_skip s")
    case Nil
    then show ?thesis by simp
  next
    case (Cons c t)
    have "length t < length s" using json_skip_Cons_length [OF Cons] .
    with len have lt: "2 * length t + 1 < f" by simp
    show ?thesis
      using Cons IHe [OF lt, of "[]"] IHm [OF lt, of "[]"] by (auto split: option.splits)
  qed
  have e: "json_elements (Suc f) H acc s \<noteq> None" if len: "2 * length s + 1 < Suc f" for acc s
  proof -
    from len have "2 * length s < f" by simp
    then obtain res where val: "json_value f H s = Some res" using IHv by blast
    show ?thesis
    proof (cases res)
      case (Inl err)
      with val show ?thesis by simp
    next
      case (Inr p)
      obtain v0 r0 where p: "p = (v0, r0)" by (cases p)
      have l0: "length r0 < length s" using json_consumes(1) val Inr p by simp
      show ?thesis
      proof (cases "json_skip r0")
        case Nil
        with val Inr p show ?thesis by simp
      next
        case (Cons c r')
        have "length r' < length r0" using json_skip_Cons_length [OF Cons] .
        with l0 len have lt: "2 * length r' + 1 < f" by simp
        show ?thesis using val Inr p Cons IHe [OF lt, of "acc @ [v0]"] by simp
      qed
    qed
  qed
  have m: "json_members (Suc f) H acc s \<noteq> None" if len: "2 * length s + 1 < Suc f" for acc s
  proof (cases "json_skip s")
    case Nil
    then show ?thesis by simp
  next
    case (Cons c t)
    have lt: "length t < length s" using json_skip_Cons_length [OF Cons] .
    show ?thesis
    proof (cases "c = CHR 0x22")
      case False
      with Cons show ?thesis by simp
    next
      case q: True
      show ?thesis
      proof (cases "json_string_chars t")
        case (Inl err)
        with Cons q show ?thesis by simp
      next
        case (Inr kr)
        obtain k r1 where kr: "kr = (k, r1)" by (cases kr)
        have l1: "length r1 < length t" using json_string_chars_length Inr kr by blast
        show ?thesis
        proof (cases "json_skip r1")
          case Nil
          with Cons q Inr kr show ?thesis by simp
        next
          case (Cons d r2)
          note sk1 = this
          have l2: "length r2 < length r1" using json_skip_Cons_length [OF sk1] .
          show ?thesis
          proof (cases "d = CHR '':''")
            case False
            with \<open>json_skip s = c # t\<close> q Inr kr sk1 show ?thesis by simp
          next
            case col: True
            from len lt l1 l2 have "2 * length r2 < f" by simp
            then obtain res where val: "json_value f H r2 = Some res" using IHv by blast
            show ?thesis
            proof (cases res)
              case (Inl err)
              with \<open>json_skip s = c # t\<close> q Inr kr sk1 col val show ?thesis by simp
            next
              case (Inr p)
              note res = this
              obtain v0 r3 where p: "p = (v0, r3)" by (cases p)
              have l3: "length r3 < length r2" using json_consumes(1) val res p by simp
              show ?thesis
              proof (cases "json_skip r3")
                case Nil
                with \<open>json_skip s = c # t\<close> q \<open>json_string_chars t = Inr kr\<close> kr sk1 col val res p
                show ?thesis by simp
              next
                case (Cons x r4)
                note sk3 = this
                have "length r4 < length r3" using json_skip_Cons_length [OF sk3] .
                with len lt l1 l2 l3 have lt4: "2 * length r4 + 1 < f" by simp
                show ?thesis
                  using \<open>json_skip s = c # t\<close> q \<open>json_string_chars t = Inr kr\<close> kr sk1 col val res p sk3
                    IHm [OF lt4, of "obj_define acc k v0"]
                  by simp
              qed
            qed
          qed
        qed
      qed
    qed
  qed
  show ?case using v e m by blast
qed

subsection \<open>Results\<close>

lemma json_value_defined: "json_value f H s = Some (Inr (v, r)) \<Longrightarrow> v \<noteq> JUndefined"
  by (cases f) (auto simp: map_sum_Inr_iff split: list.splits if_splits option.splits sum.splits)

lemma json_parse_defined: "json_parse H s = Inr x \<Longrightarrow> x \<noteq> JUndefined"
proof -
  assume "json_parse H s = Inr x"
  then obtain r where "json_value (Suc (2 * length s)) H s = Some (Inr (x, r))"
    unfolding json_parse_def
    by (auto simp del: json_value.simps split: option.splits sum.splits if_splits)
  then show ?thesis by (rule json_value_defined)
qed

lemma json_parse_bool: "json_parse H (if b then ''true'' else ''false'') = Inr (JBool b)"
  by (cases b) (simp_all add: json_parse_def json_skip_def json_ws_def numeral_eq_Suc)

text \<open>\<open>JSON.parse\<close> terminates on every text: the fuel \<open>json_parse\<close> gives,
  \<open>2 n + 1\<close> for a text of length \<open>n\<close>, is always enough, so its \<open>None\<close> branch is
  never taken.\<close>

theorem json_parse_fuel_enough: "\<exists>r. json_value (Suc (2 * length s)) H s = Some r"
  using json_fuel_enough [of "Suc (2 * length s)" H] by auto

end
