(* ===== verification/EventEmitter.thy ===== *)
theory EventEmitter
  imports JsObject
begin

text \<open>
  The synchronisation bus: class \<open>EventEmitter\<close> of src/index.ts (lines 11--55).
  Its state is \<open>eventMap\<close>, a plain object from event types (channels) to arrays of
  handlers; handlers are values of a type \<open>'h\<close>, compared by identity. A lookup
  \<open>this.eventMap[type]\<close> finds an own array, or a property inherited from
  \<open>Object.prototype\<close> (a function or, for \<open>__proto__\<close>, an object), or nothing.

  \<open>emit\<close> runs the handlers with \<open>Array.prototype.forEach\<close>, which fixes the length
  at the start and reads the live array at every step; the handlers act on a global
  state \<open>'s\<close> that contains the emitter, so \<open>em_emit\<close> is parametric in the
  projection \<open>bus\<close> to the emitter and in the semantics \<open>call\<close> of a handler. A
  handler returns a completion, and a throw ends \<open>forEach\<close> and \<open>emit\<close> with the
  state the handler left.

  \<open>off\<close> passes a fresh arrow function to \<open>indexOf\<close>; no array element is that
  function, so the index is \<open>-1\<close> and \<open>splice(-1, 1)\<close> removes the last handler,
  whichever handler was asked for.

  The abstract bus (\<open>spec_subscribe\<close>, \<open>spec_unsubscribe\<close>, \<open>spec_publish\<close>) is the
  contract of the specification: a map from channels to handler lists, with removal of
  the first occurrence of the given handler.
\<close>

section \<open>State and operations\<close>

datatype 'h handler_arg = Fn 'h | NotFn

record 'h emitter =
  eventMap :: "string \<Rightarrow> 'h list option"

datatype 'h slot = OwnList "'h list" | Inherited | Missing

datatype emitter_error = HandlerNotFunction | PushNotFunction

definition new_emitter :: "'h emitter" where
  "new_emitter = \<lparr>eventMap = Map.empty\<rparr>"

definition em_lookup :: "'h emitter \<Rightarrow> string \<Rightarrow> 'h slot" where
  "em_lookup e t =
     (case eventMap e t of
        Some l \<Rightarrow> OwnList l
      | None \<Rightarrow> if t \<in> set object_prototype_keys then Inherited else Missing)"

definition own_tasks :: "'h emitter \<Rightarrow> string \<Rightarrow> 'h list" where
  "own_tasks e t = (case eventMap e t of Some l \<Rightarrow> l | None \<Rightarrow> [])"

text \<open>\<open>exist(type)\<close>: \<open>Array.isArray(tasks) && tasks.length > 0\<close>.\<close>

definition em_exist :: "'h emitter \<Rightarrow> string \<Rightarrow> bool" where
  "em_exist e t = (case em_lookup e t of OwnList l \<Rightarrow> l \<noteq> [] | _ \<Rightarrow> False)"

text \<open>\<open>on(type, handler)\<close>: the \<open>instanceof Function\<close> guard, the creation of a missing
  array, and \<open>push\<close>, which is not a function on an inherited property.\<close>

definition em_on :: "string \<Rightarrow> 'h handler_arg \<Rightarrow> 'h emitter \<Rightarrow> emitter_error + 'h emitter" where
  "em_on t h e =
     (case h of
        NotFn \<Rightarrow> Inl HandlerNotFunction
      | Fn f \<Rightarrow>
          let e' = (if em_lookup e t = Missing then e\<lparr>eventMap := (eventMap e)(t \<mapsto> [])\<rparr> else e)
          in (case em_lookup e' t of
                OwnList l \<Rightarrow> Inr (e'\<lparr>eventMap := (eventMap e')(t \<mapsto> l @ [f])\<rparr>)
              | _ \<Rightarrow> Inl PushNotFunction))"

text \<open>\<open>forEach\<close> over the live array \<open>arr s\<close>, with the length \<open>len\<close> read at the
  start; an index the array no longer has is skipped, and a handler's throw ends the
  loop and propagates, with the state the handler left.\<close>

function for_each_live ::
  "('s \<Rightarrow> 'h list) \<Rightarrow> ('h \<Rightarrow> 's \<Rightarrow> ('e, 's) completion) \<Rightarrow> nat \<Rightarrow> nat \<Rightarrow> 's \<Rightarrow> ('e, 's) completion"
where
  "for_each_live arr call len k s =
     (if k < len
      then (let xs = arr s
            in if k < length xs
               then (case call (xs ! k) s of
                       (Some e, s') \<Rightarrow> (Some e, s')
                     | (None, s') \<Rightarrow> for_each_live arr call len (Suc k) s')
               else for_each_live arr call len (Suc k) s)
      else (None, s))"
  by pat_completeness auto
termination
  by (relation "measure (\<lambda>(arr, call, len, k, s). len - k)") auto

declare for_each_live.simps [simp del]

text \<open>\<open>emit(type, ...args)\<close>.\<close>

definition em_emit ::
  "('s \<Rightarrow> 'h emitter) \<Rightarrow> ('h \<Rightarrow> 'p \<Rightarrow> 's \<Rightarrow> ('e, 's) completion) \<Rightarrow> string \<Rightarrow> 'p \<Rightarrow> 's \<Rightarrow>
   ('e, 's) completion" where
  "em_emit bus call t p s =
     (if em_exist (bus s) t
      then for_each_live (\<lambda>s'. own_tasks (bus s') t) (\<lambda>h. call h p)
             (length (own_tasks (bus s) t)) 0 s
      else (None, s))"

text \<open>\<open>Array.prototype.indexOf\<close> with strict equality and \<open>splice(start, 1)\<close>.\<close>

fun js_index_of :: "'a list \<Rightarrow> 'a \<Rightarrow> int" where
  "js_index_of [] x = -1"
| "js_index_of (y # ys) x =
     (if y = x then 0 else let i = js_index_of ys x in if i < 0 then i else i + 1)"

definition js_splice1 :: "'a list \<Rightarrow> int \<Rightarrow> 'a list" where
  "js_splice1 xs start =
     (let len = int (length xs);
          st = (if start < 0 then max (len + start) 0 else min start len)
      in take (nat st) xs @ drop (nat st + 1) xs)"

text \<open>The values \<open>indexOf\<close> compares: the registered handlers, and the arrow function
  \<open>(cb) => cb === handler\<close> created by the call.\<close>

datatype 'h fn_value = HandlerFn 'h | SearchCallback

definition em_off :: "string \<Rightarrow> 'h \<Rightarrow> 'h emitter \<Rightarrow> 'h emitter" where
  "em_off t h e =
     (if em_exist e t
      then (case eventMap e t of
              Some tasks \<Rightarrow>
                e\<lparr>eventMap := (eventMap e)(t \<mapsto>
                     js_splice1 tasks (js_index_of (map HandlerFn tasks) SearchCallback))\<rparr>
            | None \<Rightarrow> e)
      else e)"

section \<open>The abstract bus\<close>

type_synonym 'h channels = "string \<Rightarrow> 'h list"

definition em_abs :: "'h emitter \<Rightarrow> 'h channels" where
  "em_abs e = own_tasks e"

definition spec_subscribe :: "string \<Rightarrow> 'h \<Rightarrow> 'h channels \<Rightarrow> 'h channels" where
  "spec_subscribe c h m = m(c := m c @ [h])"

definition spec_unsubscribe :: "string \<Rightarrow> 'h \<Rightarrow> 'h channels \<Rightarrow> 'h channels" where
  "spec_unsubscribe c h m = m(c := remove1 h (m c))"

text \<open>Publishing calls the channel's handlers in order; a handler's throw reaches the
  publisher and the later handlers are not called.\<close>

definition spec_publish ::
  "('h \<Rightarrow> 'p \<Rightarrow> 's \<Rightarrow> ('e, 's) completion) \<Rightarrow> string \<Rightarrow> 'p \<Rightarrow> 'h channels \<Rightarrow> 's \<Rightarrow>
   ('e, 's) completion" where
  "spec_publish call c p m s = fold_throw (\<lambda>h. call h p) (m c) s"

declare em_lookup_def [bus_simps] own_tasks_def [bus_simps] em_exist_def [bus_simps]
  em_on_def [bus_simps] em_emit_def [bus_simps] js_splice1_def [bus_simps]
  em_off_def [bus_simps] em_abs_def [bus_simps] new_emitter_def [bus_simps]


section \<open>Lemmas\<close>

subsection \<open>Reading the map\<close>

lemma em_exist_iff [bus_simps]: "em_exist e t \<longleftrightarrow> own_tasks e t \<noteq> []"
  by (simp add: em_exist_def em_lookup_def own_tasks_def split: option.split)

lemma own_tasks_update [simp]:
  "own_tasks (e\<lparr>eventMap := (eventMap e)(t \<mapsto> l)\<rparr>) t' = (if t' = t then l else own_tasks e t')"
  by (simp add: own_tasks_def)

subsection \<open>on\<close>

lemma em_on_Fn:
  "em_on t (Fn h) e =
     (if eventMap e t = None \<and> t \<in> set object_prototype_keys then Inl PushNotFunction
      else Inr (e\<lparr>eventMap := (eventMap e)(t \<mapsto> own_tasks e t @ [h])\<rparr>))"
  by (auto simp: em_on_def em_lookup_def own_tasks_def split: option.split)

subsection \<open>off\<close>

lemma js_index_of_absent: "x \<notin> set xs \<Longrightarrow> js_index_of xs x = -1"
  by (induction xs) auto

lemma js_splice1_minus_one: "xs \<noteq> [] \<Longrightarrow> js_splice1 xs (-1) = butlast xs"
proof -
  assume "xs \<noteq> []"
  then have "nat (max (int (length xs) - 1) 0) = length xs - 1" by (cases xs) auto
  then show ?thesis by (simp add: js_splice1_def butlast_conv_take)
qed

lemma em_off_eq:
  "em_off t h e =
     (if own_tasks e t = [] then e
      else e\<lparr>eventMap := (eventMap e)(t \<mapsto> butlast (own_tasks e t))\<rparr>)"
proof (cases "eventMap e t")
  case (Some tasks)
  have "js_index_of (map HandlerFn tasks) SearchCallback = -1"
    by (rule js_index_of_absent) auto
  with Some show ?thesis
    by (simp add: em_off_def em_exist_iff own_tasks_def js_splice1_minus_one)
qed (simp add: em_off_def em_exist_iff own_tasks_def)

subsection \<open>emit\<close>

text \<open>When no handler changes the array being dispatched, the live \<open>forEach\<close> is a
  fold over the array as it was when the dispatch began.\<close>

lemma for_each_live_fold:
  "(\<And>h s. arr (snd (call h s)) = arr s) \<Longrightarrow> len = length (arr s) \<Longrightarrow>
   for_each_live arr call len k s = fold_throw call (drop k (arr s)) s"
proof (induction arr call len k s rule: for_each_live.induct)
  case (1 arr call len k s)
  show ?case
  proof (cases "k < len")
    case True
    obtain r s' where c: "call (arr s ! k) s = (r, s')" by (cases "call (arr s ! k) s")
    have "arr s' = arr s" using "1.prems"(1) [of "arr s ! k" s] c by simp
    with "1.IH" [OF True refl] "1.prems" True c show ?thesis
      by (subst for_each_live.simps)
         (cases r, simp_all add: Cons_nth_drop_Suc [symmetric])
  next
    case False
    with "1.prems"(2) show ?thesis by (subst for_each_live.simps) simp
  qed
qed


lemma em_emit_fold:
  assumes "\<And>h s. own_tasks (bus (snd (call h p s))) c = own_tasks (bus s) c"
  shows "em_emit bus call c p s = fold_throw (\<lambda>h. call h p) (own_tasks (bus s) c) s"
  using for_each_live_fold [where arr = "\<lambda>s'. own_tasks (bus s') c" and call = "\<lambda>h. call h p",
      OF assms refl, of s 0]
  by (simp add: em_emit_def em_exist_iff)

section \<open>Properties of the bus\<close>

text \<open>C5: a successful \<open>on(c, h)\<close> appends \<open>h\<close> to the handlers of \<open>c\<close> and leaves
  every other channel alone: it refines \<open>spec_subscribe\<close>.\<close>

theorem em_on_refines:
  "em_on c (Fn h) e = Inr e' \<Longrightarrow> em_abs e' = spec_subscribe c h (em_abs e)"
  by (auto simp: em_on_Fn em_abs_def spec_subscribe_def fun_eq_iff split: if_splits)

theorem em_on_refines_witness:
  "em_on ''global'' (Fn (7::nat)) new_emitter = Inr \<lparr>eventMap = [''global'' \<mapsto> [7]]\<rparr> \<and>
   em_abs \<lparr>eventMap = [''global'' \<mapsto> [7::nat]]\<rparr> = spec_subscribe ''global'' 7 (em_abs new_emitter)"
proof -
  have on: "em_on ''global'' (Fn (7::nat)) new_emitter = Inr \<lparr>eventMap = [''global'' \<mapsto> [7]]\<rparr>"
    by (simp add: em_on_Fn new_emitter_def own_tasks_def object_prototype_keys_def)
  show ?thesis using on em_on_refines [OF on] by simp
qed

text \<open>C9: on a channel named like a property of \<open>Object.prototype\<close> (\<open>constructor\<close>,
  \<open>toString\<close>, \<open>__proto__\<close>, ...) that has no own array yet, \<open>on\<close> finds the
  inherited value, does not create an array, and throws a TypeError at \<open>push\<close>.\<close>

theorem em_on_inherited_channel:
  "c \<in> set object_prototype_keys \<Longrightarrow> eventMap e c = None \<Longrightarrow>
   em_on c (Fn h) e = Inl PushNotFunction"
  by (simp add: em_on_Fn)

theorem em_on_inherited_channel_witness:
  "em_on ''constructor'' (Fn (1::nat)) new_emitter = Inl PushNotFunction"
  by (rule em_on_inherited_channel) (simp_all add: object_prototype_keys_def new_emitter_def)

text \<open>C6: \<open>off(c, h)\<close> removes the last handler of \<open>c\<close>, whatever \<open>h\<close> is, and no
  handler of another channel.\<close>

theorem em_off_drops_last:
  "em_abs (em_off c h e) = (em_abs e)(c := butlast (em_abs e c))"
  by (auto simp: em_off_eq em_abs_def fun_eq_iff)

text \<open>C7: when the handlers leave the dispatched channel's array alone, \<open>emit\<close> runs
  every handler of the channel once, in subscription order, with the payload: it refines
  \<open>spec_publish\<close>.\<close>

theorem em_emit_refines:
  assumes "\<And>h s. own_tasks (bus (snd (call h p s))) c = own_tasks (bus s) c"
  shows "em_emit bus call c p s = spec_publish call c p (em_abs (bus s)) s"
  using em_emit_fold [where bus = bus and call = call and p = p and c = c, OF assms]
  by (simp add: spec_publish_def em_abs_def)

theorem em_emit_refines_witness:
  "em_emit fst (\<lambda>h (p::unit) (e, log). (None :: unit option, (e, log @ [h]))) ''global'' ()
     (\<lparr>eventMap = [''global'' \<mapsto> [1::nat, 2]]\<rparr>, []) =
   (None, (\<lparr>eventMap = [''global'' \<mapsto> [1::nat, 2]]\<rparr>, [1, 2]))"
proof -
  let ?call = "\<lambda>h (p::unit) (e, log). (None :: unit option, (e :: nat emitter, log @ [h :: nat]))"
  have frame: "\<And>h s. own_tasks (fst (snd (?call h () s))) ''global'' = own_tasks (fst s) ''global''"
    by (simp add: split_def)
  show ?thesis
    using em_emit_refines [where bus = fst and call = ?call and c = "''global''" and p = "()"
        and s = "(\<lparr>eventMap = [''global'' \<mapsto> [1::nat, 2]]\<rparr>, [])", OF frame]
    by (simp add: spec_publish_def em_abs_def own_tasks_def)
qed

end
