(* ===== verification/UrlSearch.thy ===== *)
theory UrlSearch
  imports JsValue Utf8
begin

text \<open>
  The browser capabilities the hook uses for the query string (src/index.ts):
  \<open>location.search\<close> (read by \<open>init\<close> and, through \<open>location.href\<close>, by
  \<open>updateByChannelId\<close>), the \<open>URLSearchParams\<close> constructor with its
  application/x-www-form-urlencoded parser (in \<open>init\<close>), the \<open>search\<close> setter of
  \<open>URL\<close> and \<open>history.replaceState\<close> (in \<open>updateByChannelId\<close>). They follow the
  WHATWG URL standard on byte strings: a JavaScript string is its UTF-8 encoding, and
  the form parser ends with the UTF-8 decoder of theory \<open>Utf8\<close>, which turns
  ill-formed bytes into U+FFFD.
\<close>

section \<open>The location\<close>

text \<open>A URL as far as the hook sees it: everything before the query, the query
  (\<open>None\<close> for a URL without \<open>?\<close>), the fragment.\<close>

record url =
  url_base :: string
  url_query :: "string option"
  url_fragment :: "string option"

text \<open>The \<open>search\<close> getter of \<open>location\<close> and \<open>URL\<close>.\<close>

definition location_search :: "url \<Rightarrow> string" where
  "location_search u =
     (case url_query u of
        None \<Rightarrow> ''''
      | Some q \<Rightarrow> (if q = [] then [] else CHR ''?'' # q))"

section \<open>The search setter\<close>

definition hex_digit :: "nat \<Rightarrow> char" where
  "hex_digit n = (if n < 10 then char_of (48 + n) else char_of (55 + n))"

definition percent_encode_byte :: "char \<Rightarrow> string" where
  "percent_encode_byte c =
     [CHR ''%'', hex_digit (of_char c div 16), hex_digit (of_char c mod 16)]"

text \<open>The special-query percent-encode set of an \<open>http\<close> or \<open>https\<close> URL: the C0
  controls, the bytes above \<open>0x7E\<close>, space, \<open>"\<close>, \<open>#\<close>, \<open><\<close>, \<open>>\<close> and \<open>'\<close>.\<close>

definition in_query_encode_set :: "char \<Rightarrow> bool" where
  "in_query_encode_set c \<longleftrightarrow>
     of_char c < (33::nat) \<or> (126::nat) < of_char c \<or>
     c = CHR 0x22 \<or> c = CHR ''#'' \<or> c = CHR ''<'' \<or> c = CHR ''>'' \<or> c = CHR 0x27"

definition query_encode :: "string \<Rightarrow> string" where
  "query_encode s =
     concat (map (\<lambda>c. if in_query_encode_set c then percent_encode_byte c else [c]) s)"

definition is_tab_or_newline :: "char \<Rightarrow> bool" where
  "is_tab_or_newline c \<longleftrightarrow> c = CHR 0x09 \<or> c = CHR 0x0A \<or> c = CHR 0x0D"

text \<open>\<open>url.search = v\<close>: the empty string removes the query; otherwise one leading
  \<open>?\<close> is dropped, tabs and newlines are removed, and the query state of the basic URL
  parser percent-encodes the rest. Base and fragment are untouched.\<close>

definition set_search :: "url \<Rightarrow> string \<Rightarrow> url" where
  "set_search u v =
     (if v = [] then u\<lparr>url_query := None\<rparr>
      else
        let input = (case v of c # r \<Rightarrow> if c = CHR ''?'' then r else v | [] \<Rightarrow> v)
        in u\<lparr>url_query := Some (query_encode (filter (\<lambda>c. \<not> is_tab_or_newline c) input))\<rparr>)"

section \<open>URLSearchParams\<close>

fun split_on :: "char \<Rightarrow> string \<Rightarrow> string list" where
  "split_on d [] = [[]]"
| "split_on d (c # r) =
     (if c = d then [] # split_on d r
      else (case split_on d r of x # xs \<Rightarrow> (c # x) # xs | [] \<Rightarrow> [[c]]))"

fun percent_decode :: "string \<Rightarrow> string" where
  "percent_decode (c # a # b # r) =
     (if c = CHR ''%'' \<and> is_hex a \<and> is_hex b
      then char_of (16 * hex_value a + hex_value b) # percent_decode r
      else c # percent_decode (a # b # r))"
| "percent_decode cs = cs"

definition form_pair :: "string \<Rightarrow> string \<times> string" where
  "form_pair sq =
     (if CHR ''='' \<in> set sq
      then (takeWhile (\<lambda>c. c \<noteq> CHR ''='') sq, tl (dropWhile (\<lambda>c. c \<noteq> CHR ''='') sq))
      else (sq, []))"

definition form_decode :: "string \<Rightarrow> string" where
  "form_decode s = utf8_sanitize (percent_decode (map (\<lambda>c. if c = CHR ''+'' then CHR '' '' else c) s))"

text \<open>The application/x-www-form-urlencoded parser: split on \<open>&\<close>, skip empty
  sequences, split each at its first \<open>=\<close>, turn \<open>+\<close> into space, percent-decode and
  decode UTF-8.\<close>

definition form_urlencoded_parse :: "string \<Rightarrow> (string \<times> string) list" where
  "form_urlencoded_parse s =
     map (\<lambda>sq. case form_pair sq of (n, v) \<Rightarrow> (form_decode n, form_decode v))
       (filter (\<lambda>sq. sq \<noteq> []) (split_on CHR ''&'' s))"

text \<open>\<open>new URLSearchParams(init).entries()\<close> for a string \<open>init\<close>.\<close>

definition url_search_params :: "string \<Rightarrow> (string \<times> string) list" where
  "url_search_params s =
     form_urlencoded_parse (case s of c # r \<Rightarrow> if c = CHR ''?'' then r else s | [] \<Rightarrow> s)"

text \<open>The bytes that reach the form parser unchanged through \<open>query_encode\<close>
  and \<open>form_decode\<close>.\<close>

definition url_char_safe :: "char \<Rightarrow> bool" where
  "url_char_safe c \<longleftrightarrow>
     c \<noteq> CHR ''&'' \<and> c \<noteq> CHR ''%'' \<and> c \<noteq> CHR ''+'' \<and> \<not> is_tab_or_newline c"

definition pair_text :: "string \<times> string \<Rightarrow> string" where
  "pair_text p = (case p of (k, v) \<Rightarrow> k @ ''='' @ v)"

definition pair_safe :: "string \<times> string \<Rightarrow> bool" where
  "pair_safe p =
     (case p of (k, v) \<Rightarrow>
        list_all url_char_safe k \<and> CHR ''='' \<notin> set k \<and> list_all url_char_safe v \<and>
        utf8_valid k \<and> utf8_valid v)"

declare location_search_def [url_simps] set_search_def [url_simps] query_encode_def [url_simps]
  in_query_encode_set_def [url_simps] percent_encode_byte_def [url_simps]
  hex_digit_def [url_simps] is_tab_or_newline_def [url_simps] url_search_params_def [url_simps]
  form_urlencoded_parse_def [url_simps] form_pair_def [url_simps] form_decode_def [url_simps]
  is_hex_def [url_simps] hex_value_def [url_simps]


section \<open>Lemmas\<close>

subsection \<open>Percent-encoding and decoding\<close>

lemma hex_digit_hex:
  "n < 16 \<Longrightarrow> is_hex (hex_digit n) \<and> hex_value (hex_digit n) = n"
  by (auto simp: hex_digit_def is_hex_def hex_value_def)

lemma percent_decode_plain:
  "c \<noteq> CHR ''%'' \<Longrightarrow> percent_decode (c # r) = c # percent_decode r"
proof (cases r)
  case (Cons a r')
  then show "c \<noteq> CHR ''%'' \<Longrightarrow> ?thesis" by (cases r') auto
qed simp

lemma percent_decode_encoded:
  "percent_decode (percent_encode_byte c @ r) = c # percent_decode r"
proof -
  have lt: "of_char c div 16 < (16::nat)" "of_char c mod 16 < (16::nat)"
    using nat_of_char_less_256 [of c] by linarith+
  have "16 * (of_char c div 16) + of_char c mod 16 = (of_char c :: nat)"
    by simp
  with hex_digit_hex [OF lt(1)] hex_digit_hex [OF lt(2)] show ?thesis
    by (simp add: percent_encode_byte_def)
qed

lemma percent_decode_query_encode [url_simps]:
  "CHR ''%'' \<notin> set s \<Longrightarrow> percent_decode (query_encode s) = s"
proof (induction s)
  case (Cons c s)
  then show ?case
    by (auto simp: query_encode_def percent_decode_encoded percent_decode_plain)
qed (simp add: query_encode_def)

lemma query_encode_append [simp]: "query_encode (xs @ ys) = query_encode xs @ query_encode ys"
  by (simp add: query_encode_def)

lemma query_encode_Cons_plain:
  "\<not> in_query_encode_set c \<Longrightarrow> query_encode (c # s) = c # query_encode s"
  by (simp add: query_encode_def)

lemma not_hex_not_in_query_encode:
  assumes "d \<notin> set s" "\<not> is_hex d" "d \<noteq> CHR ''%''"
  shows "d \<notin> set (query_encode s)"
proof
  assume "d \<in> set (query_encode s)"
  then obtain c where c: "c \<in> set s"
    and d: "d \<in> set (if in_query_encode_set c then percent_encode_byte c else [c])"
    by (auto simp: query_encode_def)
  have lt: "of_char c div 16 < (16::nat)" "of_char c mod 16 < (16::nat)"
    using nat_of_char_less_256 [of c] by linarith+
  from d c assms hex_digit_hex [OF lt(1)] hex_digit_hex [OF lt(2)] show False
    by (auto simp: percent_encode_byte_def split: if_splits)
qed

lemma query_encode_Nil_iff [simp]: "query_encode s = [] \<longleftrightarrow> s = []"
  by (cases s) (auto simp: query_encode_def percent_encode_byte_def)

subsection \<open>Splitting\<close>

lemma split_on_no_sep: "d \<notin> set a \<Longrightarrow> split_on d a = [a]"
  by (induction a) auto

lemma split_on_sep: "d \<notin> set a \<Longrightarrow> split_on d (a @ d # b) = a # split_on d b"
proof (induction a)
  case (Cons c a)
  then show ?case by auto
qed simp

lemma split_on_join:
  "xs \<noteq> [] \<Longrightarrow> \<forall>x \<in> set xs. d \<notin> set x \<Longrightarrow> split_on d (js_join [d] xs) = xs"
proof (induction xs)
  case (Cons x xs)
  then show ?case
    by (cases xs) (simp_all add: split_on_no_sep split_on_sep)
qed simp

lemma query_encode_join:
  "query_encode (js_join ''&'' xs) = js_join ''&'' (map query_encode xs)"
proof (induction xs)
  case (Cons x xs)
  then show ?case
    by (cases xs) (simp_all add: query_encode_Cons_plain in_query_encode_set_def)
qed (simp add: query_encode_def)


subsection \<open>Round trip through the location\<close>

lemma set_js_join: "set (js_join sep xs) \<subseteq> set sep \<union> (\<Union>x \<in> set xs. set x)"
  by (induction sep xs rule: js_join.induct) auto

lemma take_drop_first:
  "d \<notin> set a \<Longrightarrow> takeWhile (\<lambda>c. c \<noteq> d) (a @ d # b) = a \<and> dropWhile (\<lambda>c. c \<noteq> d) (a @ d # b) = d # b"
  by (induction a) auto

lemma safe_not_in_query_encode:
  assumes "list_all url_char_safe s"
  shows "CHR ''&'' \<notin> set (query_encode s)" and "CHR ''+'' \<notin> set (query_encode s)"
proof -
  from assms have a: "CHR ''&'' \<notin> set s" and p: "CHR ''+'' \<notin> set s"
    by (auto simp: list_all_iff url_char_safe_def)
  from a show "CHR ''&'' \<notin> set (query_encode s)"
    by (rule not_hex_not_in_query_encode) (simp_all add: is_hex_def)
  from p show "CHR ''+'' \<notin> set (query_encode s)"
    by (rule not_hex_not_in_query_encode) (simp_all add: is_hex_def)
qed

lemma form_decode_query_encode:
  "list_all url_char_safe s \<Longrightarrow> utf8_valid s \<Longrightarrow> form_decode (query_encode s) = s"
proof -
  assume safe: "list_all url_char_safe s" and u: "utf8_valid s"
  then have "map (\<lambda>c. if c = CHR ''+'' then CHR '' '' else c) (query_encode s) = query_encode s"
    using safe_not_in_query_encode(2) by (intro map_idI) auto
  moreover from safe have "CHR ''%'' \<notin> set s"
    by (auto simp: list_all_iff url_char_safe_def)
  ultimately show ?thesis
    using u by (simp add: form_decode_def percent_decode_query_encode utf8_valid_def)
qed

lemma form_pair_query_encode:
  assumes "CHR ''='' \<notin> set k"
  shows "form_pair (query_encode (k @ ''='' @ v)) = (query_encode k, query_encode v)"
proof -
  have k: "CHR ''='' \<notin> set (query_encode k)"
    using assms by (rule not_hex_not_in_query_encode) (simp_all add: is_hex_def)
  have "query_encode (k @ ''='' @ v) = query_encode k @ CHR ''='' # query_encode v"
    by (simp add: query_encode_Cons_plain in_query_encode_set_def)
  with k show ?thesis
    by (simp add: form_pair_def take_drop_first)
qed


lemma pair_query_encode:
  assumes "pair_safe p"
  shows "CHR ''&'' \<notin> set (query_encode (pair_text p))"
    and "query_encode (pair_text p) \<noteq> []"
    and "(case form_pair (query_encode (pair_text p)) of (n, v) \<Rightarrow> (form_decode n, form_decode v)) = p"
proof -
  obtain k v where p: "p = (k, v)" by (cases p)
  with assms have k: "list_all url_char_safe k" "CHR ''='' \<notin> set k" "utf8_valid k"
    and v: "list_all url_char_safe v" "utf8_valid v"
    by (simp_all add: pair_safe_def)
  have enc: "query_encode (pair_text p) = query_encode k @ CHR ''='' # query_encode v"
    by (simp add: p pair_text_def query_encode_Cons_plain in_query_encode_set_def)
  show "CHR ''&'' \<notin> set (query_encode (pair_text p))"
    using safe_not_in_query_encode(1) [OF k(1)] safe_not_in_query_encode(1) [OF v(1)]
    by (simp add: enc)
  show "query_encode (pair_text p) \<noteq> []"
    by (simp add: enc)
  show "(case form_pair (query_encode (pair_text p)) of (n, v) \<Rightarrow> (form_decode n, form_decode v)) = p"
    using form_pair_query_encode [OF k(2), of v] form_decode_query_encode [OF k(1) k(3)]
      form_decode_query_encode [OF v]
    by (simp add: p pair_text_def)
qed

lemma form_urlencoded_parse_pairs:
  assumes "list_all pair_safe ps" "ps \<noteq> []"
  shows "form_urlencoded_parse (js_join ''&'' (map (query_encode \<circ> pair_text) ps)) = ps"
proof -
  have amp: "\<forall>x \<in> set (map (query_encode \<circ> pair_text) ps). CHR ''&'' \<notin> set x"
    using assms(1) pair_query_encode(1) by (auto simp: list_all_iff)
  have split: "split_on CHR ''&'' (js_join ''&'' (map (query_encode \<circ> pair_text) ps)) =
      map (query_encode \<circ> pair_text) ps"
    using split_on_join [OF _ amp] assms(2) by simp
  have ne: "filter (\<lambda>sq. sq \<noteq> []) (map (query_encode \<circ> pair_text) ps) =
      map (query_encode \<circ> pair_text) ps"
    using assms(1) pair_query_encode(2) by (auto simp: list_all_iff)
  show ?thesis
    unfolding form_urlencoded_parse_def split ne map_map
    using assms(1) pair_query_encode(3) by (intro map_idI) (auto simp: list_all_iff)
qed

lemma pair_text_no_tab:
  assumes "pair_safe p" "c \<in> set (pair_text p)"
  shows "\<not> is_tab_or_newline c"
proof -
  obtain k v where p: "p = (k, v)" by (cases p)
  with assms have "c \<in> set k \<or> c = CHR ''='' \<or> c \<in> set v"
    by (auto simp: pair_text_def)
  moreover from assms p have "list_all url_char_safe k" "list_all url_char_safe v"
    by (simp_all add: pair_safe_def)
  ultimately show ?thesis
    by (auto simp: list_all_iff url_char_safe_def is_tab_or_newline_def)
qed

lemma query_text_no_tab:
  assumes "list_all pair_safe ps"
  shows "filter (\<lambda>c. \<not> is_tab_or_newline c) (js_join ''&'' (map pair_text ps)) =
           js_join ''&'' (map pair_text ps)"
proof -
  have "\<forall>c \<in> set (js_join ''&'' (map pair_text ps)). \<not> is_tab_or_newline c"
  proof
    fix c assume "c \<in> set (js_join ''&'' (map pair_text ps))"
    then have "c = CHR ''&'' \<or> (\<exists>p \<in> set ps. c \<in> set (pair_text p))"
      using set_js_join [of "''&''" "map pair_text ps"] by auto
    with assms show "\<not> is_tab_or_newline c"
      using pair_text_no_tab by (auto simp: list_all_iff is_tab_or_newline_def)
  qed
  then show ?thesis by (simp add: filter_id_conv)
qed

lemma js_join_query_encode_Nil_iff:
  "js_join ''&'' (map pair_text ps) = [] \<longleftrightarrow> ps = []"
  by (cases ps rule: remdups_adj.cases) (simp_all add: pair_text_def split: prod.splits)


lemma url_search_params_set_search:
  assumes "list_all pair_safe ps"
  shows "url_search_params (location_search (set_search u
           (if ps = [] then [] else CHR ''?'' # js_join ''&'' (map pair_text ps)))) = ps"
proof (cases "ps = []")
  case True
  then show ?thesis
    by (simp add: set_search_def location_search_def url_search_params_def
        form_urlencoded_parse_def)
next
  case False
  let ?t = "js_join ''&'' (map pair_text ps)"
  have q: "url_query (set_search u (CHR ''?'' # ?t)) = Some (query_encode ?t)"
    using query_text_no_tab [OF assms] by (simp add: set_search_def)
  have ne: "query_encode ?t \<noteq> []"
    using False js_join_query_encode_Nil_iff [of ps] by simp
  have "form_urlencoded_parse (query_encode ?t) = ps"
    using form_urlencoded_parse_pairs [OF assms False]
    by (simp add: query_encode_join map_map)
  with q ne False show ?thesis
    by (simp add: location_search_def url_search_params_def)
qed


text \<open>the query string \<open>?k1=v1&...&kn=vn\<close> that a page writes with the \<open>search\<close>
  setter is read back by \<open>new URLSearchParams(location.search)\<close> as the same pairs,
  provided keys and values are valid UTF-8, no key or value holds \<open>&\<close>, \<open>%\<close>,
  \<open>+\<close>, a tab or a newline, and no key holds \<open>=\<close>.\<close>

theorem search_roundtrip:
  assumes "list_all pair_safe ps"
  shows "url_search_params (location_search (set_search u
           (if ps = [] then [] else CHR ''?'' # js_join ''&'' (map pair_text ps)))) = ps"
  using assms by (rule url_search_params_set_search)

theorem search_roundtrip_witness:
  "list_all pair_safe [(''count'', ''5''), (''active'', ''true'')] \<and>
   url_search_params (location_search (set_search
     \<lparr>url_base = ''https://example.org/list'', url_query = None, url_fragment = None\<rparr>
     ''?count=5&active=true'')) = [(''count'', ''5''), (''active'', ''true'')]"
proof -
  have safe: "list_all pair_safe [(''count'', ''5''), (''active'', ''true'')]"
    by (simp add: pair_safe_def url_char_safe_def is_tab_or_newline_def utf8_valid_ascii)
  show ?thesis
    using search_roundtrip [OF safe,
        of "\<lparr>url_base = ''https://example.org/list'', url_query = None, url_fragment = None\<rparr>"] safe
    by (simp add: pair_text_def)
qed

text \<open>every name and value that \<open>URLSearchParams\<close> yields is valid UTF-8, the
  encoding of a JavaScript string, whatever bytes the query holds: ill-formed
  percent-encoded bytes become U+FFFD.\<close>

theorem url_search_params_valid:
  "list_all (\<lambda>(n, v). utf8_valid n \<and> utf8_valid v) (url_search_params s)"
  by (simp add: url_search_params_def form_urlencoded_parse_def form_decode_def list_all_iff
      utf8_valid_sanitize split: prod.splits)

end
