(* ===== verification/SearchParams.thy ===== *)
theory SearchParams
  imports Json EventEmitter UrlSearch
begin

text \<open>
  The channel-scoped parameter store: the hook \<open>useSearchParams\<close> of src/index.ts
  (lines 57--154), with the module-level singletons \<open>EMPTY_LIST\<close>,
  \<open>GLOBAL_CHANNEL_ID\<close> and \<open>eventEmitter\<close>.

  One usage site is a \<open>site\<close> record: the schema \<open>fields\<close>, the channel fixed at the
  first render, the snapshot \<open>search.value\<close>, the \<open>forceUpdate\<close> counter and the
  phase of its React lifecycle. The whole page is a \<open>world\<close>: the shared emitter, whose
  handlers are site identities (each site's \<open>updateByChannelId\<close> closure), the sites,
  and the location. The lifecycle steps are
  \<^item> \<open>hook_render\<close>: the first render, in which \<open>useMemo\<close> runs \<open>init\<close> on the
    current \<open>location.search\<close>; a throw of \<open>JSON.parse\<close> fails the render;
  \<^item> \<open>hook_mount\<close>: the \<open>useEffect\<close> callback, \<open>eventEmitter.on(CHANNEL_ID, ...)\<close>;
  \<^item> \<open>hook_unmount\<close>: its cleanup, \<open>eventEmitter.off(CHANNEL_ID, ...)\<close>;
  \<^item> \<open>hook_update\<close>: the returned \<open>update\<close>, \<open>eventEmitter.emit(CHANNEL_ID, newParams)\<close>,
    which runs \<open>update_by_channel_id\<close> of every registered site until one throws.
  \<open>toString()\<close> throws a TypeError when a value of the snapshot is an object with an
  own \<open>toString\<close> key. A handler whose \<open>toString()\<close> throws has merged its snapshot
  but neither written the address nor re-rendered. The throw ends \<open>emit\<close> and
  \<open>update\<close>, so \<open>hook_update\<close> returns a completion: the page reached, and the
  error if there was one.
\<close>
section \<open>Module constants and coercion\<close>

type_synonym 'n snapshot = "'n jsval jsobj"
type_synonym 'n schema = "'n jsval jsobj"

definition global_channel_id :: string where
  "global_channel_id = ''global''"

text \<open>\<open>channelId || GLOBAL_CHANNEL_ID\<close>: \<open>undefined\<close> and the empty string are falsy.\<close>

definition channel_id :: "string option \<Rightarrow> string" where
  "channel_id c = (case c of None \<Rightarrow> global_channel_id
                           | Some s \<Rightarrow> if s = [] then global_channel_id else s)"

text \<open>\<open>typeof fields[key]\<close>: an own property, or one inherited from
  \<open>Object.prototype\<close> (\<open>__proto__\<close> is an object, the others are functions).\<close>

definition schema_typeof :: "'n schema \<Rightarrow> string \<Rightarrow> js_type" where
  "schema_typeof field_schema key =
     (case obj_get field_schema key of
        Some v \<Rightarrow> js_typeof v
      | None \<Rightarrow> if key = ''__proto__'' then TObject
               else if key \<in> set object_prototype_keys then TFunction else TUndefined)"

text \<open>\<open>checkType(key, value)\<close>, lines 80--94.\<close>

definition check_type ::
  "'n number_host \<Rightarrow> 'n schema \<Rightarrow> string \<Rightarrow> string \<Rightarrow> parse_error + 'n jsval" where
  "check_type H field_schema key value =
     (case schema_typeof field_schema key of
        TNumber \<Rightarrow> Inr (JNum (to_number H value))
      | TBoolean \<Rightarrow> json_parse H value
      | _ \<Rightarrow> Inr (JStr value))"

text \<open>The \<open>while (!run.done)\<close> loop of \<open>init\<close>, lines 99--105.\<close>

fun init_loop ::
  "'n number_host \<Rightarrow> 'n schema \<Rightarrow> (string \<times> string) list \<Rightarrow> 'n snapshot \<Rightarrow>
   parse_error + 'n snapshot" where
  "init_loop H field_schema [] result = Inr result"
| "init_loop H field_schema ((key, value) # tasks) result =
     (case check_type H field_schema key value of
        Inl err \<Rightarrow> Inl err
      | Inr x \<Rightarrow> init_loop H field_schema tasks (obj_assign result key x))"

text \<open>\<open>init()\<close>, lines 96--108.\<close>

definition init :: "'n number_host \<Rightarrow> 'n schema \<Rightarrow> url \<Rightarrow> parse_error + 'n snapshot" where
  "init H field_schema loc = init_loop H field_schema (url_search_params (location_search loc)) []"

text \<open>\<open>toString()\<close>, lines 110--126: the \<open>for ... in\<close> loop pushes \<open>key=value\<close> for
  every value outside \<open>EMPTY_LIST\<close>, and the pairs are joined behind a \<open>?\<close>. The
  template literal converts the value with ToString, which throws for an object with
  an own \<open>toString\<close> property; the throw leaves the loop and \<open>toString()\<close>.\<close>

definition to_string :: "'n number_host \<Rightarrow> 'n snapshot \<Rightarrow> js_error + string" where
  "to_string H value =
     (case map_throw (\<lambda>(key, v). map_sum id (\<lambda>t. key @ ''='' @ t) (js_to_string H v))
             (filter (\<lambda>(key, v). \<not> empty_list_includes H v) (obj_entries value)) of
        Inl e \<Rightarrow> Inl e
      | Inr kv \<Rightarrow> Inr (if kv = [] then [] else CHR ''?'' # js_join ''&'' kv))"

section \<open>Usage sites and the page\<close>

datatype phase = Rendered | Mounted | Unmounted

record 'n site =
  site_fields :: "'n schema"
  site_channel :: string
  site_value :: "'n snapshot"
  site_renders :: nat
  site_phase :: phase

record 'n world =
  bus :: "site_id emitter"
  sites :: "'n site list"
  location :: url

definition initial_world :: "url \<Rightarrow> 'n world" where
  "initial_world u = \<lparr>bus = new_emitter, sites = [], location = u\<rparr>"

text \<open>The first render of \<open>useSearchParams(fields, channelId)\<close>: \<open>CHANNEL_ID\<close>,
  \<open>useState(0)\<close> and \<open>useMemo(() => ({value: init(), toString}))\<close>. The new site gets
  the next identity.\<close>

definition hook_render ::
  "'n number_host \<Rightarrow> 'n schema \<Rightarrow> string option \<Rightarrow> 'n world \<Rightarrow>
   parse_error + (site_id \<times> 'n world)" where
  "hook_render H field_schema chan w =
     (case init H field_schema (location w) of
        Inl err \<Rightarrow> Inl err
      | Inr v \<Rightarrow>
          Inr (length (sites w),
               w\<lparr>sites := sites w @ [\<lparr>site_fields = field_schema, site_channel = channel_id chan,
                                       site_value = v, site_renders = 0,
                                       site_phase = Rendered\<rparr>]\<rparr>))"

text \<open>The effect of lines 73--78: \<open>eventEmitter.on(CHANNEL_ID, updateByChannelId)\<close>.\<close>

definition hook_mount :: "site_id \<Rightarrow> 'n world \<Rightarrow> emitter_error + 'n world" where
  "hook_mount i w =
     (case em_on (site_channel (sites w ! i)) (Fn i) (bus w) of
        Inl err \<Rightarrow> Inl err
      | Inr e \<Rightarrow> Inr (w\<lparr>bus := e,
                         sites := (sites w)[i := (sites w ! i)\<lparr>site_phase := Mounted\<rparr>]\<rparr>))"

text \<open>The cleanup: \<open>eventEmitter.off(CHANNEL_ID, updateByChannelId)\<close>.\<close>

definition hook_unmount :: "site_id \<Rightarrow> 'n world \<Rightarrow> 'n world" where
  "hook_unmount i w =
     w\<lparr>bus := em_off (site_channel (sites w ! i)) i (bus w),
       sites := (sites w)[i := (sites w ! i)\<lparr>site_phase := Unmounted\<rparr>]\<rparr>"

text \<open>\<open>updateByChannelId(newParams)\<close> of site \<open>i\<close>, lines 136--147: merge by spread
  into \<open>search.value\<close>, write the serialised snapshot into a copy of
  \<open>location.href\<close> through the \<open>search\<close> setter, \<open>history.replaceState\<close> it, and
  \<open>forceUpdate\<close>. When \<open>toString()\<close> throws, the merge has happened and nothing
  after it does: the handler's completion is the throw with the merged snapshot.\<close>

definition update_by_channel_id ::
  "'n number_host \<Rightarrow> site_id \<Rightarrow> 'n snapshot \<Rightarrow> 'n world \<Rightarrow> (js_error, 'n world) completion" where
  "update_by_channel_id H i new_params w =
     (if i < length (sites w)
      then
        let st = sites w ! i;
            v = obj_spread2 (site_value st) new_params
        in (case to_string H v of
              Inl e \<Rightarrow> (Some e, w\<lparr>sites := (sites w)[i := st\<lparr>site_value := v\<rparr>]\<rparr>)
            | Inr q \<Rightarrow>
                (None, w\<lparr>sites := (sites w)[i := st\<lparr>site_value := v, site_renders := Suc (site_renders st)\<rparr>],
                         location := set_search (location w) q\<rparr>))
      else (None, w))"

text \<open>\<open>update(newParams)\<close> of site \<open>i\<close>, lines 149--151.\<close>

definition hook_update ::
  "'n number_host \<Rightarrow> site_id \<Rightarrow> 'n snapshot \<Rightarrow> 'n world \<Rightarrow> (js_error, 'n world) completion" where
  "hook_update H i new_params w =
     em_emit bus (update_by_channel_id H) (site_channel (sites w ! i)) new_params w"

text \<open>What the hook returns to the component (type \<open>UseSearchParams<T>\<close>, lines
  3--9, and \<open>return [search, update]\<close>, line 153): the memoised \<open>search\<close> object,
  whose \<open>value\<close> is the site's snapshot and whose \<open>toString()\<close>, called on this page,
  serialises it or throws, and the site's \<open>update\<close>, which publishes on the site's
  channel and completes normally or with the throw of a handler.\<close>

record 'n search_object =
  search_value :: "'n snapshot"
  search_to_string :: "js_error + string"

type_synonym 'n use_search_params =
  "'n search_object \<times> ('n snapshot \<Rightarrow> 'n world \<Rightarrow> (js_error, 'n world) completion)"

definition use_search_params ::
  "'n number_host \<Rightarrow> site_id \<Rightarrow> 'n world \<Rightarrow> 'n use_search_params" where
  "use_search_params H i w =
     (let search = site_value (sites w ! i)
      in (\<lparr>search_value = search, search_to_string = to_string H search\<rparr>,
          \<lambda>new_params. hook_update H i new_params))"

text \<open>The snapshot of site \<open>j\<close> once \<open>newParams\<close> is spread into it.\<close>

abbreviation merged_value :: "'n world \<Rightarrow> 'n snapshot \<Rightarrow> site_id \<Rightarrow> 'n snapshot" where
  "merged_value w p j \<equiv> obj_spread2 (site_value (sites w ! j)) p"

text \<open>The handlers of a dispatch run one after the other, until one throws.\<close>

definition run_handlers ::
  "'n number_host \<Rightarrow> site_id list \<Rightarrow> 'n snapshot \<Rightarrow> 'n world \<Rightarrow> (js_error, 'n world) completion" where
  "run_handlers H l p w = fold_throw (\<lambda>h. update_by_channel_id H h p) l w"

section \<open>Serialisable and well-typed snapshots\<close>

text \<open>The snapshots whose serialisation reads back: every value outside
  \<open>EMPTY_LIST\<close> has the type its field's sample has (a string for a field without a
  number or boolean sample), and its key and text avoid the bytes the URL changes.\<close>

definition value_fits :: "js_type \<Rightarrow> 'n jsval \<Rightarrow> bool" where
  "value_fits t x =
     (case x of
        JNum n \<Rightarrow> t = TNumber
      | JBool b \<Rightarrow> t = TBoolean
      | JStr s \<Rightarrow> t \<noteq> TNumber \<and> t \<noteq> TBoolean
      | _ \<Rightarrow> False)"

definition snapshot_serialisable :: "'n number_host \<Rightarrow> 'n schema \<Rightarrow> 'n snapshot \<Rightarrow> bool" where
  "snapshot_serialisable H field_schema v =
     list_all (\<lambda>(k, x). empty_list_includes H x \<or>
                  (value_fits (schema_typeof field_schema k) x \<and>
                   pair_safe (k, projr (js_to_string H x)) \<and> k \<noteq> ''__proto__'')) v"

text \<open>The types \<open>init\<close> gives a value of the query: a number for a field whose sample
  is a number, any JSON value for a boolean field, and a string otherwise.\<close>

definition init_value_type :: "js_type \<Rightarrow> 'n jsval \<Rightarrow> bool" where
  "init_value_type t x =
     (case t of
        TNumber \<Rightarrow> (case x of JNum n \<Rightarrow> True | _ \<Rightarrow> False)
      | TBoolean \<Rightarrow> x \<noteq> JUndefined
      | _ \<Rightarrow> (case x of JStr s \<Rightarrow> True | _ \<Rightarrow> False))"

definition snapshot_typed :: "'n schema \<Rightarrow> 'n snapshot \<Rightarrow> bool" where
  "snapshot_typed fs v = list_all (\<lambda>(k, x). init_value_type (schema_typeof fs k) x) v"

declare global_channel_id_def [simp] channel_id_def [obj_simps] schema_typeof_def [obj_simps]
  check_type_def [obj_simps] init_def [obj_simps] to_string_def [obj_simps]
  initial_world_def [obj_simps] hook_render_def [obj_simps] hook_mount_def [obj_simps]
  hook_unmount_def [obj_simps] update_by_channel_id_def [obj_simps] hook_update_def [obj_simps]


section \<open>A page for the examples\<close>

text \<open>The page of the specification's examples: the URL carries
  \<open>?count=5&active=true\<close>, the schema is \<open>{count: 0, active: false}\<close>, and numbers
  are those of \<open>int_host\<close>.\<close>

definition example_url :: url where
  "example_url = \<lparr>url_base = ''https://example.org/list'', url_query = Some ''count=5&active=true'',
                  url_fragment = Some ''top''\<rparr>"

definition example_schema :: "int option schema" where
  "example_schema = [(''count'', JNum (Some 0)), (''active'', JBool False)]"

definition example_site :: "int option site" where
  "example_site = \<lparr>site_fields = example_schema, site_channel = ''global'',
     site_value = [(''count'', JNum (Some 5)), (''active'', JBool True)], site_renders = 0,
     site_phase = Mounted\<rparr>"

text \<open>Two mounted sites on the global channel.\<close>

definition example_page :: "int option world" where
  "example_page = \<lparr>bus = \<lparr>eventMap = [''global'' \<mapsto> [0, 1]]\<rparr>,
     sites = [example_site, example_site], location = example_url\<rparr>"

text \<open>The page after the first render of a site on it, and after its effect.\<close>

definition example_rendered :: "int option world" where
  "example_rendered = \<lparr>bus = new_emitter,
     sites = [example_site\<lparr>site_phase := Rendered\<rparr>], location = example_url\<rparr>"

definition example_mounted :: "int option world" where
  "example_mounted = \<lparr>bus = \<lparr>eventMap = [''global'' \<mapsto> [0]]\<rparr>,
     sites = [example_site], location = example_url\<rparr>"

section \<open>Lemmas\<close>

subsection \<open>One handler\<close>

lemma set_search_twice [simp]: "set_search (set_search u a) b = set_search u b"
  by (simp add: set_search_def Let_def)

lemma update_by_channel_id_frame [simp]:
  "bus (snd (update_by_channel_id H i p w)) = bus w"
  "length (sites (snd (update_by_channel_id H i p w))) = length (sites w)"
  by (simp_all add: update_by_channel_id_def Let_def split: sum.split)

lemma update_by_channel_id_other [simp]:
  "j \<noteq> i \<Longrightarrow> sites (snd (update_by_channel_id H i p w)) ! j = sites w ! j"
  by (simp add: update_by_channel_id_def Let_def split: sum.split)

text \<open>The two completions of a handler: it serialises the merged snapshot, or the
  serialisation throws after the merge.\<close>

lemma update_by_channel_id_Inr:
  "i < length (sites w) \<Longrightarrow> to_string H (merged_value w p i) = Inr q \<Longrightarrow>
   update_by_channel_id H i p w =
     (None, w\<lparr>sites := (sites w)[i := (sites w ! i)\<lparr>site_value := merged_value w p i,
                                      site_renders := Suc (site_renders (sites w ! i))\<rparr>],
             location := set_search (location w) q\<rparr>)"
  by (simp add: update_by_channel_id_def Let_def)

lemma update_by_channel_id_Inl:
  "i < length (sites w) \<Longrightarrow> to_string H (merged_value w p i) = Inl e \<Longrightarrow>
   update_by_channel_id H i p w =
     (Some e, w\<lparr>sites := (sites w)[i := (sites w ! i)\<lparr>site_value := merged_value w p i\<rparr>]\<rparr>)"
  by (simp add: update_by_channel_id_def Let_def)

text \<open>A handler keeps the phase and channel of every site, and the well-formedness of
  every snapshot, whether it completes or throws.\<close>

lemma update_by_channel_id_shape [simp]:
  "map (\<lambda>s. (site_phase s, site_channel s)) (sites (snd (update_by_channel_id H i p w))) =
   map (\<lambda>s. (site_phase s, site_channel s)) (sites w)"
  by (simp add: update_by_channel_id_def Let_def map_list_update_same split: sum.split)

lemma update_by_channel_id_wf:
  "\<forall>s \<in> set (sites w). obj_wf (site_value s) \<Longrightarrow>
   \<forall>s \<in> set (sites (snd (update_by_channel_id H i p w))). obj_wf (site_value s)"
  by (auto simp: update_by_channel_id_def Let_def split: sum.split
           dest!: set_update_subset_insert [THEN subsetD])

subsection \<open>A dispatch\<close>

lemma hook_update_run_handlers:
  "hook_update H i p w = run_handlers H (own_tasks (bus w) (site_channel (sites w ! i))) p w"
  unfolding hook_update_def run_handlers_def
  by (rule em_emit_fold) simp

lemma run_handlers_frame [simp]:
  "bus (snd (run_handlers H l p w)) = bus w"
  "length (sites (snd (run_handlers H l p w))) = length (sites w)"
  unfolding run_handlers_def by (rule fold_throw_frame; simp)+

lemma hook_update_frame [simp]:
  "bus (snd (hook_update H i p w)) = bus w"
  "length (sites (snd (hook_update H i p w))) = length (sites w)"
  by (simp_all add: hook_update_run_handlers)

lemma run_handlers_shape [simp]:
  "map (\<lambda>s. (site_phase s, site_channel s)) (sites (snd (run_handlers H l p w))) =
   map (\<lambda>s. (site_phase s, site_channel s)) (sites w)"
  unfolding run_handlers_def by (rule fold_throw_frame) simp

lemma run_handlers_wf:
  "\<forall>s \<in> set (sites w). obj_wf (site_value s) \<Longrightarrow>
   \<forall>s \<in> set (sites (snd (run_handlers H l p w))). obj_wf (site_value s)"
  unfolding run_handlers_def
  by (rule fold_throw_invariant [where P = "\<lambda>w. \<forall>s \<in> set (sites w). obj_wf (site_value s)"])
     (simp_all add: update_by_channel_id_wf)

text \<open>A site that is not registered is untouched by the dispatch, whether it
  completes or throws.\<close>

lemma run_handlers_other:
  assumes "j \<notin> set l"
  shows "sites (snd (run_handlers H l p w)) ! j = sites w ! j"
  unfolding run_handlers_def
proof (rule fold_throw_frame [where g = "\<lambda>s. sites s ! j"])
  fix x s
  assume "x \<in> set l"
  with assms have "j \<noteq> x" by auto
  then show "sites (snd (update_by_channel_id H x p s)) ! j = sites s ! j" by simp
qed

text \<open>A dispatch in which every handler's merged snapshot serialises completes: every
  handler merges, re-renders and writes the address, the last one last.\<close>

lemma run_handlers_no_throw:
  assumes "distinct l" "set l \<subseteq> {..<length (sites w)}"
    and "\<forall>h \<in> set l. \<not> isl (to_string H (merged_value w p h))"
  shows "fst (run_handlers H l p w) = None \<and>
    (\<forall>j < length (sites w). sites (snd (run_handlers H l p w)) ! j =
       (if j \<in> set l then (sites w ! j)\<lparr>site_value := merged_value w p j,
                                        site_renders := Suc (site_renders (sites w ! j))\<rparr>
        else sites w ! j)) \<and>
    location (snd (run_handlers H l p w)) =
      (if l = [] then location w
       else set_search (location w) (projr (to_string H (merged_value w p (last l)))))"
  using assms
proof (induction l arbitrary: w)
  case Nil
  then show ?case by (simp add: run_handlers_def)
next
  case (Cons h l)
  have h: "h < length (sites w)" using Cons.prems(2) by simp
  obtain q where q: "to_string H (merged_value w p h) = Inr q"
    using Cons.prems(3) by (cases "to_string H (merged_value w p h)") auto
  let ?w1 = "w\<lparr>sites := (sites w)[h := (sites w ! h)\<lparr>site_value := merged_value w p h,
                 site_renders := Suc (site_renders (sites w ! h))\<rparr>],
               location := set_search (location w) q\<rparr>"
  have u: "update_by_channel_id H h p w = (None, ?w1)"
    by (rule update_by_channel_id_Inr [OF h q])
  have r: "run_handlers H (h # l) p w = run_handlers H l p ?w1"
    by (simp add: run_handlers_def u)
  have hl: "h \<notin> set l" using Cons.prems(1) by simp
  have same: "sites ?w1 ! g = sites w ! g" if "g \<in> set l" for g
  proof -
    from that hl have "g \<noteq> h" by auto
    then show ?thesis by simp
  qed
  have a: "\<forall>g \<in> set l. \<not> isl (to_string H (merged_value ?w1 p g))"
    using Cons.prems(3) same by simp
  have d: "distinct l" and sb: "set l \<subseteq> {..<length (sites ?w1)}"
    using Cons.prems(1,2) by auto
  have ih: "fst (run_handlers H l p ?w1) = None \<and>
    (\<forall>j < length (sites ?w1). sites (snd (run_handlers H l p ?w1)) ! j =
       (if j \<in> set l then (sites ?w1 ! j)\<lparr>site_value := merged_value ?w1 p j,
                                        site_renders := Suc (site_renders (sites ?w1 ! j))\<rparr>
        else sites ?w1 ! j)) \<and>
    location (snd (run_handlers H l p ?w1)) =
      (if l = [] then location ?w1
       else set_search (location ?w1) (projr (to_string H (merged_value ?w1 p (last l)))))"
    by (rule Cons.IH [OF d sb a])
  have loc: "location (snd (run_handlers H (h # l) p w)) =
      set_search (location w) (projr (to_string H (merged_value w p (last (h # l)))))"
  proof (cases "l = []")
    case True
    with ih r q show ?thesis by simp
  next
    case False
    then have "last l \<in> set l" by simp
    with ih r False same [of "last l"] show ?thesis by simp
  qed
  have st: "sites (snd (run_handlers H (h # l) p w)) ! j =
      (if j \<in> set (h # l) then (sites w ! j)\<lparr>site_value := merged_value w p j,
                                           site_renders := Suc (site_renders (sites w ! j))\<rparr>
       else sites w ! j)" if j: "j < length (sites w)" for j
    using ih r j hl same [of j] by (auto simp: nth_list_update)
  show ?case using ih r loc st by simp
qed

text \<open>A dispatch in which handler \<open>h\<close> is the first whose merged snapshot does not
  serialise: the handlers before it complete, \<open>h\<close> merges and throws, and the handlers
  after it never run.\<close>

lemma run_handlers_throw:
  assumes "distinct (pre @ h # post)" "set (pre @ h # post) \<subseteq> {..<length (sites w)}"
    and "\<forall>g \<in> set pre. \<not> isl (to_string H (merged_value w p g))"
    and "isl (to_string H (merged_value w p h))"
  shows "fst (run_handlers H (pre @ h # post) p w) = Some TypeError \<and>
    (\<forall>j < length (sites w). sites (snd (run_handlers H (pre @ h # post) p w)) ! j =
       (if j \<in> set pre then (sites w ! j)\<lparr>site_value := merged_value w p j,
                                          site_renders := Suc (site_renders (sites w ! j))\<rparr>
        else if j = h then (sites w ! j)\<lparr>site_value := merged_value w p j\<rparr>
        else sites w ! j)) \<and>
    location (snd (run_handlers H (pre @ h # post) p w)) =
      (if pre = [] then location w
       else set_search (location w) (projr (to_string H (merged_value w p (last pre)))))"
proof -
  have dp: "distinct pre" and sp: "set pre \<subseteq> {..<length (sites w)}"
    and hp: "h \<notin> set pre" and h: "h < length (sites w)"
    using assms(1,2) by auto
  note pre = run_handlers_no_throw [OF dp sp assms(3)]
  obtain w1 where r1: "run_handlers H pre p w = (None, w1)"
    using pre by (cases "run_handlers H pre p w") auto
  have s1: "sites w1 ! h = sites w ! h" using run_handlers_other [OF hp, of H p w] r1 by simp
  have l1: "length (sites w1) = length (sites w)"
    using run_handlers_frame(2) [of H pre p w] r1 by simp
  have "to_string H (merged_value w1 p h) = Inl TypeError"
    using assms(4) s1 by (cases "to_string H (merged_value w p h)") (auto intro: js_error.exhaust)
  moreover have "h < length (sites w1)" using h l1 by simp
  ultimately have u: "update_by_channel_id H h p w1 =
      (Some TypeError, w1\<lparr>sites := (sites w1)[h := (sites w1 ! h)\<lparr>site_value := merged_value w1 p h\<rparr>]\<rparr>)"
    by (intro update_by_channel_id_Inl)
  have r: "run_handlers H (pre @ h # post) p w =
      (Some TypeError, w1\<lparr>sites := (sites w1)[h := (sites w1 ! h)\<lparr>site_value := merged_value w1 p h\<rparr>]\<rparr>)"
    using r1 u by (simp add: run_handlers_def fold_throw_append)
  show ?thesis
    using pre r1 s1 l1 hp h by (auto simp: r nth_list_update)
qed

subsection \<open>Well-formed and typed snapshots\<close>

lemma init_loop_wf:
  "obj_wf result \<Longrightarrow> init_loop H fs tasks result = Inr r \<Longrightarrow> obj_wf r"
  by (induction H fs tasks result rule: init_loop.induct) (auto split: sum.splits)

lemma check_type_typed:
  "check_type H fs k s = Inr x \<Longrightarrow> init_value_type (schema_typeof fs k) x"
  by (auto simp: check_type_def init_value_type_def json_parse_defined
      split: js_type.splits)

lemma init_loop_typed:
  "snapshot_typed fs acc \<Longrightarrow> init_loop H fs ps acc = Inr v \<Longrightarrow> snapshot_typed fs v"
proof (induction H fs ps acc rule: init_loop.induct)
  case (2 H fs key val tasks result)
  then obtain x where c: "check_type H fs key val = Inr x"
    and r: "init_loop H fs tasks (obj_assign result key x) = Inr v"
    by (auto split: sum.splits)
  have "snapshot_typed fs (obj_assign result key x)"
    using "2.prems"(1) check_type_typed [OF c] set_obj_assign_subset [of result key x]
    by (fastforce simp: snapshot_typed_def list_all_iff)
  with "2.IH" [OF c] r show ?case by simp
qed simp

text \<open>The snapshot holds, for each key, the coercion of the key's last value in the
  query: \<open>result[key] = ...\<close> overwrites.\<close>

lemma init_loop_last:
  assumes "init_loop H fs ps acc = Inr v" "k \<noteq> ''__proto__''"
  shows "map_option Inr (obj_get v k) =
           (case map_of (rev ps) k of
              None \<Rightarrow> map_option Inr (obj_get acc k)
            | Some s \<Rightarrow> Some (check_type H fs k s))"
  using assms
proof (induction H fs ps acc rule: init_loop.induct)
  case (2 H fs key val tasks result)
  then obtain x where c: "check_type H fs key val = Inr x"
    and r: "init_loop H fs tasks (obj_assign result key x) = Inr v"
    by (auto split: sum.splits)
  show ?case
    using "2.IH" [OF c r "2.prems"(2)] c "2.prems"(2)
    by (auto simp: obj_get_assign map_of_append split: option.splits)
qed simp

lemma hook_render_Inr:
  assumes "hook_render H fs chan w = Inr (i, w')"
  shows "\<exists>v. init H fs (location w) = Inr v \<and> i = length (sites w) \<and>
     w' = w\<lparr>sites := sites w @ [\<lparr>site_fields = fs, site_channel = channel_id chan,
                                  site_value = v, site_renders = 0, site_phase = Rendered\<rparr>]\<rparr>"
  using assms by (auto simp: hook_render_def split: sum.splits)

section \<open>Properties of the store\<close>

subsection \<open>Serialise, then initialise\<close>

lemma check_type_js_to_string:
  assumes ok: "number_host_ok H" and ne: "\<not> empty_list_includes H x"
    and fits: "value_fits (schema_typeof fs k) x"
  shows "\<not> isl (js_to_string H x) \<and> check_type H fs k (projr (js_to_string H x)) = Inr x"
proof (cases x)
  case (JNum n)
  with ok ne have "\<not> is_nan H n" by simp
  with ok have "to_number H (number_to_string H n) = n"
    by (auto simp: number_host_ok_def)
  with JNum fits show ?thesis by (simp add: check_type_def value_fits_def)
next
  case (JBool b)
  with fits show ?thesis
    using json_parse_bool [of H b] by (simp add: check_type_def value_fits_def)
next
  case (JStr s)
  with fits show ?thesis
    by (cases "schema_typeof fs k") (simp_all add: check_type_def value_fits_def)
qed (use fits in \<open>simp_all add: value_fits_def\<close>)

lemma obj_assign_fresh:
  "k \<notin> set (map fst acc) \<Longrightarrow> k \<noteq> ''__proto__'' \<Longrightarrow> obj_assign acc k x = acc @ [(k, x)]"
  by (simp add: obj_assign_def obj_define_def)

lemma init_loop_exact:
  assumes "\<forall>(k, x) \<in> set es. check_type H fs k (projr (js_to_string H x)) = Inr x \<and> k \<noteq> ''__proto__''"
    and "distinct (map fst (acc @ es))"
  shows "init_loop H fs (map (\<lambda>(k, x). (k, projr (js_to_string H x))) es) acc = Inr (acc @ es)"
  using assms
proof (induction es arbitrary: acc)
  case (Cons e es)
  obtain k x where e: "e = (k, x)" by (cases e)
  with Cons.prems have ck: "check_type H fs k (projr (js_to_string H x)) = Inr x"
    and kp: "k \<noteq> ''__proto__''" and kn: "k \<notin> set (map fst acc)"
    by auto
  have "init_loop H fs (map (\<lambda>(k, x). (k, projr (js_to_string H x))) es) (acc @ [(k, x)]) =
      Inr ((acc @ [(k, x)]) @ es)"
    using Cons.prems e by (intro Cons.IH) auto
  with ck kp kn e show ?case
    by (simp add: obj_assign_fresh)
qed simp

text \<open>When no value to be written throws in ToString, \<open>toString()\<close> joins the pairs of
  the non-empty entries.\<close>

lemma to_string_pairs:
  assumes "\<forall>(k, x) \<in> set (filter (\<lambda>(k, x). \<not> empty_list_includes H x) (obj_entries v)).
             \<not> isl (js_to_string H x)"
  shows "to_string H v =
     Inr (let ps = map (\<lambda>(k, x). (k, projr (js_to_string H x)))
                     (filter (\<lambda>(k, x). \<not> empty_list_includes H x) (obj_entries v))
          in if ps = [] then [] else CHR ''?'' # js_join ''&'' (map pair_text ps))"
proof -
  let ?es = "filter (\<lambda>(k, x). \<not> empty_list_includes H x) (obj_entries v)"
  have "map_throw (\<lambda>(key, v). map_sum id (\<lambda>t. key @ ''='' @ t) (js_to_string H v)) ?es =
      Inr (map (\<lambda>(k, x). k @ ''='' @ projr (js_to_string H x)) ?es)"
    using assms by (intro map_throw_Inr) (auto simp: map_sum_not_isl)
  then show ?thesis
    by (simp add: to_string_def Let_def pair_text_def split_def comp_def)
qed

text \<open>C10: the round trip of the store. For a well-formed snapshot whose values fit
  the schema and whose keys and texts avoid the bytes the URL changes, \<open>toString()\<close>
  completes, and writing it to the URL and running \<open>init\<close> on it gives back the
  snapshot's non-empty entries, in the order \<open>for ... in\<close> visits them. Empty values
  (\<open>null\<close>, \<open>undefined\<close>, \<open>""\<close>, \<open>NaN\<close>) are dropped.\<close>

theorem init_after_to_string:
  assumes ok: "number_host_ok H" and wf: "obj_wf v" and ser: "snapshot_serialisable H fs v"
  shows "map_sum id (\<lambda>q. init H fs (set_search u q)) (to_string H v) =
           Inr (Inr (filter (\<lambda>(k, x). \<not> empty_list_includes H x) (obj_entries v)))"
proof -
  let ?es = "filter (\<lambda>(k, x). \<not> empty_list_includes H x) (obj_entries v)"
  let ?ps = "map (\<lambda>(k, x). (k, projr (js_to_string H x))) ?es"
  have ck: "\<forall>(k, x) \<in> set ?es. \<not> isl (js_to_string H x) \<and>
      check_type H fs k (projr (js_to_string H x)) = Inr x \<and> k \<noteq> ''__proto__''"
    using ser check_type_js_to_string [OF ok]
    by (auto simp: list_all_iff snapshot_serialisable_def)
  then have "\<forall>(k, x) \<in> set ?es. \<not> isl (js_to_string H x)" by auto
  from to_string_pairs [OF this]
  have ts: "to_string H v = Inr (if ?ps = [] then [] else CHR ''?'' # js_join ''&'' (map pair_text ?ps))"
    by (simp only: Let_def)
  have safe: "list_all pair_safe ?ps"
    using ser by (auto simp: list_all_iff snapshot_serialisable_def)
  have usp: "url_search_params (location_search (set_search u
      (if ?ps = [] then [] else CHR ''?'' # js_join ''&'' (map pair_text ?ps)))) = ?ps"
    using url_search_params_set_search [OF safe, of u] by simp
  have "distinct (map fst (obj_entries v))"
    using obj_wf_entries [OF wf] by (simp add: obj_wf_def)
  then have dist: "distinct (map fst ([] @ ?es))"
    by (simp add: distinct_map_filter)
  have "\<forall>(k, x) \<in> set ?es. check_type H fs k (projr (js_to_string H x)) = Inr x \<and> k \<noteq> ''__proto__''"
    using ck by auto
  from init_loop_exact [OF this dist]
  have i: "init H fs (set_search u
      (if ?ps = [] then [] else CHR ''?'' # js_join ''&'' (map pair_text ?ps))) = Inr ?es"
    unfolding init_def usp by simp
  show ?thesis by (simp only: ts map_sum.simps i)
qed

theorem init_after_to_string_witness:
  "number_host_ok int_host \<and> obj_wf [(''count'', JNum (Some (5::int))), (''active'', JBool True)] \<and>
   snapshot_serialisable int_host example_schema [(''count'', JNum (Some (5::int))), (''active'', JBool True)] \<and>
   map_sum id (\<lambda>q. init int_host example_schema (set_search example_url q))
     (to_string int_host [(''count'', JNum (Some (5::int))), (''active'', JBool True)]) =
   Inr (Inr [(''count'', JNum (Some (5::int))), (''active'', JBool True)])"
proof -
  let ?v = "[(''count'', JNum (Some 5)), (''active'', JBool True)] :: int option snapshot"
  have wf: "obj_wf ?v" by (simp add: obj_wf_def)
  have ser: "snapshot_serialisable int_host example_schema ?v" by code_simp
  have es: "filter (\<lambda>(k, x). \<not> empty_list_includes int_host x) (obj_entries ?v) = ?v" by code_simp
  show ?thesis
    using init_after_to_string [OF int_host_ok wf ser, of example_url] int_host_ok wf ser es
    by simp
qed


text \<open>C20: every snapshot \<open>init\<close> returns is a well-formed object whose values have
  the types of the schema: numbers for number fields, JSON values (never
  \<open>undefined\<close>) for boolean fields, strings for the others.\<close>

theorem init_typed:
  "init H fs u = Inr v \<Longrightarrow> obj_wf v \<and> snapshot_typed fs v"
  using init_loop_typed [of fs "[]"] init_loop_wf [of "[]"]
  by (simp add: init_def snapshot_typed_def obj_wf_def)

theorem init_typed_witness:
  "init int_host example_schema example_url = Inr [(''count'', JNum (Some 5)), (''active'', JBool True)] \<and>
   obj_wf [(''count'', JNum (Some (5::int))), (''active'', JBool True)] \<and>
   snapshot_typed example_schema [(''count'', JNum (Some (5::int))), (''active'', JBool True)]"
proof -
  have i: "init int_host example_schema example_url =
      Inr [(''count'', JNum (Some 5)), (''active'', JBool True)]" by code_simp
  show ?thesis using init_typed [OF i] i by simp
qed

text \<open>C21: for every key but \<open>__proto__\<close>, the snapshot holds the coercion of the
  last value the query gives the key, and no value when the query does not name it.\<close>

theorem init_last_wins:
  "init H fs u = Inr v \<Longrightarrow> k \<noteq> ''__proto__'' \<Longrightarrow>
   map_option Inr (obj_get v k) =
     map_option (check_type H fs k) (map_of (rev (url_search_params (location_search u))) k)"
proof -
  assume "init H fs u = Inr v" and k: "k \<noteq> ''__proto__''"
  then have "init_loop H fs (url_search_params (location_search u)) [] = Inr v"
    by (simp add: init_def)
  from init_loop_last [OF this k] show ?thesis
    by (simp split: option.splits)
qed

theorem init_last_wins_witness:
  "init int_host example_schema (example_url\<lparr>url_query := Some ''count=1&count=2''\<rparr>) =
     Inr [(''count'', JNum (Some 2))] \<and>
   ''count'' \<noteq> ''__proto__'' \<and>
   map_option Inr (obj_get [(''count'', JNum (Some (2::int)))] ''count'') =
     map_option (check_type int_host example_schema ''count'')
       (map_of (rev (url_search_params (location_search
          (example_url\<lparr>url_query := Some ''count=1&count=2''\<rparr>)))) ''count'')"
proof -
  have i: "init int_host example_schema (example_url\<lparr>url_query := Some ''count=1&count=2''\<rparr>) =
     Inr [(''count'', JNum (Some 2))]" by code_simp
  show ?thesis using init_last_wins [OF i, of "''count''"] i by simp
qed


subsection \<open>Serialisation\<close>

text \<open>C17: \<open>EMPTY_LIST\<close> is exactly the set of values \<open>toString()\<close> leaves out: the
  serialisation of a snapshot is the empty string, with no \<open>?\<close>, if and only if every
  value of the snapshot is \<open>null\<close>, \<open>undefined\<close>, \<open>""\<close> or \<open>NaN\<close>.\<close>

theorem to_string_empty_iff:
  assumes ok: "number_host_ok H"
  shows "to_string H v = Inr [] \<longleftrightarrow>
    (\<forall>(k, x) \<in> set v. x = JNull \<or> x = JUndefined \<or> x = JStr [] \<or> (\<exists>n. x = JNum n \<and> is_nan H n))"
proof -
  let ?f = "\<lambda>(key, v). map_sum id (\<lambda>t. key @ ''='' @ t) (js_to_string H v)"
  let ?es = "filter (\<lambda>(key, v). \<not> empty_list_includes H v) (obj_entries v)"
  have e: "empty_list_includes H x \<longleftrightarrow>
      x = JNull \<or> x = JUndefined \<or> x = JStr [] \<or> (\<exists>n. x = JNum n \<and> is_nan H n)" for x
    using ok by (auto simp: empty_list_includes_iff number_host_ok_def)
  have "to_string H v = Inr [] \<longleftrightarrow> map_throw ?f ?es = Inr []"
    by (cases "map_throw ?f ?es") (simp_all add: to_string_def)
  also have "\<dots> \<longleftrightarrow> ?es = []" by (rule map_throw_Nil_iff)
  also have "\<dots> \<longleftrightarrow> (\<forall>(k, x) \<in> set v. empty_list_includes H x)"
    by (auto simp: filter_empty_conv)
  finally show ?thesis by (simp add: e)
qed

theorem to_string_empty_iff_witness:
  "number_host_ok int_host \<and>
   to_string int_host [(''a'', JNull), (''b'', JStr []), (''c'', JNum None)] = Inr []"
proof -
  have "\<forall>(k, x) \<in> set [(''a'', JNull), (''b'', JStr []), (''c'', JNum (None :: int option))].
      x = JNull \<or> x = JUndefined \<or> x = JStr [] \<or> (\<exists>n. x = JNum n \<and> is_nan int_host n)"
    by (simp add: int_host_def)
  then show ?thesis
    using to_string_empty_iff [OF int_host_ok] int_host_ok by simp
qed

subsection \<open>The specification's examples\<close>

text \<open>With schema \<open>{count: 0, active: false}\<close> and the query
  \<open>?count=5&active=true\<close>, \<open>init\<close> gives \<open>{count: 5, active: true}\<close>.\<close>

lemma init_spec_example:
  "init int_host example_schema example_url = Inr [(''count'', JNum (Some 5)), (''active'', JBool True)]"
  by code_simp

text \<open>A snapshot \<open>{count: NaN, active: true}\<close> serialises as \<open>?active=true\<close>.\<close>

lemma to_string_nan_example:
  "to_string int_host [(''count'', JNum None), (''active'', JBool True)] = Inr ''?active=true''"
  by code_simp

subsection \<open>Where the code and the specification part\<close>

text \<open>\<open>init\<close> keeps a query key that the schema does not name, as a string.\<close>

lemma init_keeps_unknown_keys:
  "init int_host example_schema (example_url\<lparr>url_query := Some ''count=5&extra=x''\<rparr>) =
   Inr [(''count'', JNum (Some 5)), (''extra'', JStr ''x'')]"
  by code_simp

text \<open>A boolean field is coerced by \<open>JSON.parse\<close>: \<open>?active=1\<close> gives the number 1,
  \<open>?active=null\<close> gives \<open>null\<close>, and only a text that is not JSON, such as
  \<open>?active=yes\<close>, throws.\<close>

lemma init_boolean_field_json:
  "init int_host example_schema (example_url\<lparr>url_query := Some ''active=1''\<rparr>) =
     Inr [(''active'', JNum (Some 1))] \<and>
   init int_host example_schema (example_url\<lparr>url_query := Some ''active=null''\<rparr>) =
     Inr [(''active'', JNull)] \<and>
   init int_host example_schema (example_url\<lparr>url_query := Some ''active=yes''\<rparr>) =
     Inl SyntaxError"
  by code_simp

text \<open>\<open>toString()\<close> visits array-index keys first, in numeric order: a snapshot
  created as \<open>{b: "x", 10: "y", 2: "z"}\<close> serialises as \<open>?2=z&10=y&b=x\<close>.\<close>

lemma to_string_index_keys_first:
  "to_string int_host [(''b'', JStr ''x''), (''10'', JStr ''y''), (''2'', JStr ''z'')] = Inr ''?2=z&10=y&b=x''"
  by (simp add: to_string_def obj_simps empty_list_includes_def empty_list_def)

text \<open>The serialisation does not percent-encode, so a value holding \<open>&\<close> does not read
  back: \<open>{q: "a&b"}\<close> comes back from the URL as \<open>{q: "a", b: ""}\<close>.\<close>

lemma roundtrip_breaks_on_ampersand:
  "map_sum id (\<lambda>q. init int_host [] (set_search example_url q)) (to_string int_host [(''q'', JStr ''a&b'')]) =
   Inr (Inr [(''q'', JStr ''a''), (''b'', JStr [])])"
  by code_simp

text \<open>A JSON object with an own \<open>toString\<close> property, as \<open>?active={"toString":1}\<close>
  gives a boolean field, makes \<open>toString()\<close> throw a TypeError.\<close>

lemma to_string_throws_on_own_toString:
  "to_string int_host [(''active'', JObj [(''toString'', JNum (Some 1))])] = Inl TypeError"
  by code_simp

subsection \<open>The effects of an update\<close>

lemma example_render_step:
  "hook_render int_host example_schema None (initial_world example_url) = Inr (0, example_rendered)"
proof -
  have "init int_host example_schema (location (initial_world example_url)) =
      Inr [(''count'', JNum (Some 5)), (''active'', JBool True)]"
    by code_simp
  then show ?thesis
    by (simp add: hook_render_def example_rendered_def example_site_def initial_world_def
        channel_id_def)
qed

lemma example_mount_step: "hook_mount 0 example_rendered = Inr example_mounted"
  by (simp add: hook_mount_def em_on_Fn example_rendered_def example_mounted_def new_emitter_def
      own_tasks_def object_prototype_keys_def example_site_def)

lemma set_search_base [simp]:
  "url_base (set_search u v) = url_base u" "url_fragment (set_search u v) = url_fragment u"
  by (simp_all add: set_search_def Let_def)

text \<open>C18: an update never changes the path or the fragment of the location, whether
  it completes or a handler throws: the hook replaces the query only.\<close>

theorem update_keeps_path_and_hash:
  "url_base (location (snd (hook_update H i p w))) = url_base (location w) \<and>
   url_fragment (location (snd (hook_update H i p w))) = url_fragment (location w)"
proof -
  have b: "url_base (location (snd (update_by_channel_id H h p s))) = url_base (location s)"
    and f: "url_fragment (location (snd (update_by_channel_id H h p s))) = url_fragment (location s)"
    for h s
    by (simp_all add: update_by_channel_id_def Let_def split: sum.split)
  show ?thesis
    unfolding hook_update_run_handlers run_handlers_def
    by (intro conjI fold_throw_frame b f)
qed

text \<open>C16: the merge handler of a site first overwrites exactly the keys of the partial
  update and keeps the others. If the merged snapshot serialises, the handler then
  writes the serialisation into the location and bumps the site's render counter; if
  \<open>toString()\<close> throws, the handler throws with the merge done, the location as it was
  and no re-render.\<close>

theorem handler_merges:
  assumes "i < length (sites w)" "obj_wf (site_value (sites w ! i))" "obj_wf p"
  shows "obj_get (site_value (sites (snd (update_by_channel_id H i p w)) ! i)) k =
           (case obj_get p k of Some x \<Rightarrow> Some x | None \<Rightarrow> obj_get (site_value (sites w ! i)) k) \<and>
         (case to_string H (merged_value w p i) of
            Inr q \<Rightarrow> fst (update_by_channel_id H i p w) = None \<and>
              site_renders (sites (snd (update_by_channel_id H i p w)) ! i) = Suc (site_renders (sites w ! i)) \<and>
              location (snd (update_by_channel_id H i p w)) = set_search (location w) q
          | Inl e \<Rightarrow> fst (update_by_channel_id H i p w) = Some e \<and>
              site_renders (sites (snd (update_by_channel_id H i p w)) ! i) = site_renders (sites w ! i) \<and>
              location (snd (update_by_channel_id H i p w)) = location w)"
proof (cases "to_string H (merged_value w p i)")
  case (Inl e)
  with assms show ?thesis by (simp add: update_by_channel_id_Inl obj_get_spread2)
next
  case (Inr q)
  with assms show ?thesis by (simp add: update_by_channel_id_Inr obj_get_spread2)
qed

theorem handler_merges_witness:
  "(0::nat) < length (sites example_page) \<and> obj_wf (site_value (sites example_page ! 0)) \<and>
   obj_wf [(''active'', JObj [(''toString'', JNum (Some 1))] :: int option jsval)] \<and>
   obj_get (site_value (sites (snd (update_by_channel_id int_host 0
       [(''active'', JObj [(''toString'', JNum (Some 1))])] example_page)) ! 0)) ''count'' =
     Some (JNum (Some 5)) \<and>
   fst (update_by_channel_id int_host 0 [(''active'', JObj [(''toString'', JNum (Some 1))])] example_page) =
     Some TypeError \<and>
   location (snd (update_by_channel_id int_host 0
       [(''active'', JObj [(''toString'', JNum (Some 1))])] example_page)) = example_url"
proof -
  have a: "(0::nat) < length (sites example_page)" "obj_wf (site_value (sites example_page ! 0))"
    "obj_wf [(''active'', JObj [(''toString'', JNum (Some 1))] :: int option jsval)]"
    by (simp_all add: example_page_def example_site_def obj_wf_def)
  have m: "merged_value example_page [(''active'', JObj [(''toString'', JNum (Some 1))])] 0 =
      [(''count'', JNum (Some 5)), (''active'', JObj [(''toString'', JNum (Some (1::int)))])]"
    by (simp add: example_page_def example_site_def) code_simp
  have t: "to_string int_host
      [(''count'', JNum (Some 5)), (''active'', JObj [(''toString'', JNum (Some (1::int)))])] = Inl TypeError"
    by code_simp
  show ?thesis
    using handler_merges [OF a, of int_host "''count''"] a m t
    by (simp add: example_page_def example_site_def obj_get_def)
qed

text \<open>C19: \<open>update\<close> on a channel with no registered handler is a no-op that
  completes.\<close>

theorem update_without_subscribers:
  "own_tasks (bus w) (site_channel (sites w ! i)) = [] \<Longrightarrow> hook_update H i p w = (None, w)"
  by (simp add: hook_update_def em_emit_def em_exist_iff)

theorem update_without_subscribers_witness:
  "own_tasks (bus example_rendered) (site_channel (sites example_rendered ! 0)) = [] \<and>
   hook_update int_host 0 [(''count'', JNum (Some 7))] example_rendered = (None, example_rendered)"
proof -
  have e: "own_tasks (bus example_rendered) (site_channel (sites example_rendered ! 0)) = []"
    by (simp add: example_rendered_def new_emitter_def own_tasks_def)
  show ?thesis using update_without_subscribers [OF e] e by simp
qed

end
