(* ===== verification/Page.thy ===== *)
theory Page
  imports SearchParams
begin

text \<open>
  A page of the application that uses the hook (src/index.ts): the usage sites of
  \<open>SearchParams\<close> on one page, sharing the module-level \<open>eventEmitter\<close> and the
  location. \<open>reachable\<close> is the set of pages React and the user can produce from
  an empty page by rendering sites, running and cleaning up their effects, calling
  \<open>update\<close> and navigating; \<open>world_inv\<close> is its invariant, proved by rule
  induction. \<open>page_event\<close>, \<open>page_step\<close> and \<open>run_page\<close> run a list of such events
  and stop at the first throw; the traces of the specification's examples and of the
  defects are runs of this kind. The last section holds the properties of a dispatch
  on a page that satisfies the invariant: propagation, isolation, the location it
  writes, the state a throwing update leaves, the sites an update misses, and the
  site a cleanup unsubscribes in place of its own.
\<close>
section \<open>Reachable pages\<close>

text \<open>The pages React and the user can produce: sites are rendered, their effects run
  once and are cleaned up once, \<open>update\<close> is called with a JavaScript object, and the
  user may navigate to any URL.\<close>

inductive reachable :: "'n number_host \<Rightarrow> 'n world \<Rightarrow> bool" for H where
  start: "reachable H (initial_world u)"
| render: "reachable H w \<Longrightarrow> hook_render H field_schema chan w = Inr (i, w') \<Longrightarrow> obj_wf field_schema \<Longrightarrow>
     reachable H w'"
| mount: "reachable H w \<Longrightarrow> i < length (sites w) \<Longrightarrow> site_phase (sites w ! i) = Rendered \<Longrightarrow>
     hook_mount i w = Inr w' \<Longrightarrow> reachable H w'"
| unmount: "reachable H w \<Longrightarrow> i < length (sites w) \<Longrightarrow> site_phase (sites w ! i) = Mounted \<Longrightarrow>
     reachable H (hook_unmount i w)"
| update: "reachable H w \<Longrightarrow> i < length (sites w) \<Longrightarrow> obj_wf p \<Longrightarrow>
     reachable H (snd (hook_update H i p w))"
| navigate: "reachable H w \<Longrightarrow> reachable H (w\<lparr>location := u\<rparr>)"

text \<open>The invariant: every registered handler is a site of the page that listens on
  that channel and has been mounted, no handler is registered twice on a channel, and
  every snapshot is a well-formed object.\<close>

definition world_inv :: "'n world \<Rightarrow> bool" where
  "world_inv w \<longleftrightarrow>
     (\<forall>c. distinct (own_tasks (bus w) c) \<and>
          (\<forall>i \<in> set (own_tasks (bus w) c).
             i < length (sites w) \<and> site_channel (sites w ! i) = c \<and>
             site_phase (sites w ! i) \<noteq> Rendered)) \<and>
     (\<forall>s \<in> set (sites w). obj_wf (site_value s))"

section \<open>Runs of a page\<close>

text \<open>The events of a page and a step function that runs them in order, stopping at
  the first throw: a render whose \<open>init\<close> throws, an effect whose \<open>on\<close> throws,
  or an \<open>update\<close> whose \<open>toString()\<close> throws in one of the handlers.
  The caller (React) passes identities of rendered sites only.\<close>

datatype 'n page_event =
    Render "'n schema" "string option"
  | Mount site_id
  | Unmount site_id
  | Update site_id "'n snapshot"
  | Navigate url

datatype page_error = RenderError parse_error | EffectError emitter_error | UpdateError js_error

fun page_step :: "'n number_host \<Rightarrow> 'n page_event \<Rightarrow> 'n world \<Rightarrow> page_error + 'n world" where
  "page_step H (Render fs chan) w =
     (case hook_render H fs chan w of Inl e \<Rightarrow> Inl (RenderError e) | Inr (i, w') \<Rightarrow> Inr w')"
| "page_step H (Mount i) w =
     (case hook_mount i w of Inl e \<Rightarrow> Inl (EffectError e) | Inr w' \<Rightarrow> Inr w')"
| "page_step H (Unmount i) w = Inr (hook_unmount i w)"
| "page_step H (Update i p) w =
     (case hook_update H i p w of (Some e, _) \<Rightarrow> Inl (UpdateError e) | (None, w') \<Rightarrow> Inr w')"
| "page_step H (Navigate u) w = Inr (w\<lparr>location := u\<rparr>)"

fun run_page :: "'n number_host \<Rightarrow> 'n page_event list \<Rightarrow> 'n world \<Rightarrow> page_error + 'n world" where
  "run_page H [] w = Inr w"
| "run_page H (e # es) w = (case page_step H e w of Inl err \<Rightarrow> Inl err | Inr w' \<Rightarrow> run_page H es w')"

section \<open>Example pages\<close>

text \<open>A page with one site on the global channel and one on the \<open>filters\<close> channel,
  and a page whose second site has rendered but whose effect has not run yet.\<close>

definition two_channel_page :: "int option world" where
  "two_channel_page = example_page\<lparr>sites := [example_site, example_site\<lparr>site_channel := ''filters''\<rparr>],
     bus := \<lparr>eventMap = [''global'' \<mapsto> [0], ''filters'' \<mapsto> [1]]\<rparr>\<rparr>"


section \<open>Lemmas\<close>

subsection \<open>The invariant\<close>

lemma world_invI:
  assumes "\<And>c. distinct (own_tasks (bus w) c)"
    and "\<And>c i. i \<in> set (own_tasks (bus w) c) \<Longrightarrow>
           i < length (sites w) \<and> site_channel (sites w ! i) = c \<and>
           site_phase (sites w ! i) \<noteq> Rendered"
    and "\<And>s. s \<in> set (sites w) \<Longrightarrow> obj_wf (site_value s)"
  shows "world_inv w"
  using assms by (simp add: world_inv_def)

lemma world_invD:
  assumes "world_inv w"
  shows "distinct (own_tasks (bus w) c)"
    and "i \<in> set (own_tasks (bus w) c) \<Longrightarrow> i < length (sites w)"
    and "i \<in> set (own_tasks (bus w) c) \<Longrightarrow> site_channel (sites w ! i) = c"
    and "i \<in> set (own_tasks (bus w) c) \<Longrightarrow> site_phase (sites w ! i) \<noteq> Rendered"
    and "s \<in> set (sites w) \<Longrightarrow> obj_wf (site_value s)"
  using assms by (auto simp: world_inv_def)

lemma world_inv_render:
  assumes inv: "world_inv w" and r: "hook_render H fs chan w = Inr (i, w')"
  shows "world_inv w'"
proof -
  obtain v where v: "init H fs (location w) = Inr v"
    and w': "w' = w\<lparr>sites := sites w @ [\<lparr>site_fields = fs, site_channel = channel_id chan,
                      site_value = v, site_renders = 0, site_phase = Rendered\<rparr>]\<rparr>"
    using hook_render_Inr [OF r] by blast
  have wf: "obj_wf v"
    using v init_loop_wf [of "[]"] by (simp add: init_def)
  show ?thesis
  proof (rule world_invI)
    fix c j assume "j \<in> set (own_tasks (bus w') c)"
    then have j: "j \<in> set (own_tasks (bus w) c)" by (simp add: w')
    then have "j < length (sites w)" by (rule world_invD(2) [OF inv])
    with j world_invD(3,4) [OF inv j] show "j < length (sites w') \<and>
        site_channel (sites w' ! j) = c \<and> site_phase (sites w' ! j) \<noteq> Rendered"
      by (simp add: w' nth_append)
  qed (use inv wf world_invD(1,5) in \<open>auto simp: w'\<close>)
qed

lemma world_inv_mount:
  assumes inv: "world_inv w" and i: "i < length (sites w)"
    and ph: "site_phase (sites w ! i) = Rendered" and m: "hook_mount i w = Inr w'"
  shows "world_inv w'"
proof -
  let ?c = "site_channel (sites w ! i)"
  from m have e: "em_on ?c (Fn i) (bus w) = Inr (bus w')"
    and s: "sites w' = (sites w)[i := (sites w ! i)\<lparr>site_phase := Mounted\<rparr>]"
    by (auto simp: hook_mount_def split: sum.splits)
  then have bw: "bus w' = (bus w)\<lparr>eventMap := (eventMap (bus w))(?c \<mapsto> own_tasks (bus w) ?c @ [i])\<rparr>"
    by (simp add: em_on_Fn split: if_splits)
  then have t: "own_tasks (bus w') c =
      (if c = ?c then own_tasks (bus w) ?c @ [i] else own_tasks (bus w) c)" for c
    by simp
  have ni: "i \<notin> set (own_tasks (bus w) ?c)"
    using world_invD(4) [OF inv] ph by blast
  show ?thesis
  proof (rule world_invI)
    fix c show "distinct (own_tasks (bus w') c)"
      using world_invD(1) [OF inv] ni by (simp add: t)
  next
    fix c j assume "j \<in> set (own_tasks (bus w') c)"
    then have "j = i \<and> c = ?c \<or> j \<in> set (own_tasks (bus w) c)"
      by (auto simp: t split: if_splits)
    then show "j < length (sites w') \<and> site_channel (sites w' ! j) = c \<and>
        site_phase (sites w' ! j) \<noteq> Rendered"
      using i world_invD(2,3,4) [OF inv] by (auto simp: s nth_list_update)
  next
    fix x assume "x \<in> set (sites w')"
    then show "obj_wf (site_value x)"
      using i world_invD(5) [OF inv] by (auto simp: s dest: set_update_subset_insert [THEN subsetD])
  qed
qed

lemma hook_unmount_tasks:
  "own_tasks (bus (hook_unmount i w)) c =
     (if c = site_channel (sites w ! i) then butlast (own_tasks (bus w) c) else own_tasks (bus w) c)"
  by (simp add: hook_unmount_def em_off_eq)

lemma world_inv_unmount:
  assumes inv: "world_inv w" and i: "i < length (sites w)"
  shows "world_inv (hook_unmount i w)"
proof -
  let ?c = "site_channel (sites w ! i)"
  note t = hook_unmount_tasks [of i w]
  have s: "sites (hook_unmount i w) = (sites w)[i := (sites w ! i)\<lparr>site_phase := Unmounted\<rparr>]"
    by (simp add: hook_unmount_def)
  show ?thesis
  proof (rule world_invI)
    fix c show "distinct (own_tasks (bus (hook_unmount i w)) c)"
      using world_invD(1) [OF inv] by (simp add: t distinct_butlast)
  next
    fix c j assume "j \<in> set (own_tasks (bus (hook_unmount i w)) c)"
    then have "j \<in> set (own_tasks (bus w) c)"
      by (auto simp: t split: if_splits dest: in_set_butlastD)
    then show "j < length (sites (hook_unmount i w)) \<and>
        site_channel (sites (hook_unmount i w) ! j) = c \<and>
        site_phase (sites (hook_unmount i w) ! j) \<noteq> Rendered"
      using i world_invD(2,3,4) [OF inv] by (auto simp: s nth_list_update)
  next
    fix x assume "x \<in> set (sites (hook_unmount i w))"
    then show "obj_wf (site_value x)"
      using i world_invD(5) [OF inv] by (auto simp: s dest: set_update_subset_insert [THEN subsetD])
  qed
qed


lemma hook_update_site_shape:
  assumes "j < length (sites w)"
  shows "site_phase (sites (snd (hook_update H i p w)) ! j) = site_phase (sites w ! j) \<and>
         site_channel (sites (snd (hook_update H i p w)) ! j) = site_channel (sites w ! j)"
proof -
  let ?f = "\<lambda>s. (site_phase s, site_channel s)"
  have "map ?f (sites (snd (hook_update H i p w))) ! j = map ?f (sites w) ! j"
    by (simp add: hook_update_run_handlers)
  with assms show ?thesis by simp
qed

lemma world_inv_update:
  assumes inv: "world_inv w"
  shows "world_inv (snd (hook_update H i p w))"
proof (rule world_invI)
  fix c show "distinct (own_tasks (bus (snd (hook_update H i p w))) c)"
    using world_invD(1) [OF inv] by simp
next
  fix c j assume "j \<in> set (own_tasks (bus (snd (hook_update H i p w))) c)"
  then have j: "j \<in> set (own_tasks (bus w) c)" by simp
  then have "j < length (sites w)" by (rule world_invD(2) [OF inv])
  with world_invD(3,4) [OF inv j] hook_update_site_shape [OF this, of H i p]
  show "j < length (sites (snd (hook_update H i p w))) \<and>
        site_channel (sites (snd (hook_update H i p w)) ! j) = c \<and>
        site_phase (sites (snd (hook_update H i p w)) ! j) \<noteq> Rendered"
    by simp
next
  fix x assume "x \<in> set (sites (snd (hook_update H i p w)))"
  with run_handlers_wf [OF ballI [OF world_invD(5) [OF inv]]] show "obj_wf (site_value x)"
    by (simp add: hook_update_run_handlers)
qed

lemma world_inv_initial: "world_inv (initial_world u)"
  by (simp add: world_inv_def initial_world_def new_emitter_def own_tasks_def)

lemma world_inv_reachable: "reachable H w \<Longrightarrow> world_inv w"
proof (induction rule: reachable.induct)
  case (start u)
  then show ?case by (rule world_inv_initial)
next
  case (render w fs chan i w')
  then show ?case by (blast intro: world_inv_render)
next
  case (mount w i w')
  then show ?case by (blast intro: world_inv_mount)
next
  case (unmount w i)
  then show ?case by (blast intro: world_inv_unmount)
next
  case (update w i p)
  then show ?case by (blast intro: world_inv_update)
next
  case (navigate w u)
  then show ?case by (simp add: world_inv_def)
qed

lemma world_inv_example_page: "world_inv example_page"
proof (rule world_invI)
  fix c
  show "distinct (own_tasks (bus example_page) c)"
    by (simp add: example_page_def own_tasks_def)
  show "\<And>i. i \<in> set (own_tasks (bus example_page) c) \<Longrightarrow>
      i < length (sites example_page) \<and> site_channel (sites example_page ! i) = c \<and>
      site_phase (sites example_page ! i) \<noteq> Rendered"
    by (auto simp: example_page_def own_tasks_def example_site_def split: if_splits)
next
  fix x assume "x \<in> set (sites example_page)"
  then show "obj_wf (site_value x)"
    by (auto simp: example_page_def example_site_def obj_wf_def)
qed

lemma world_inv_two_channel_page: "world_inv two_channel_page"
proof (rule world_invI)
  fix c
  show "distinct (own_tasks (bus two_channel_page) c)"
    by (simp add: two_channel_page_def own_tasks_def)
  show "\<And>i. i \<in> set (own_tasks (bus two_channel_page) c) \<Longrightarrow>
      i < length (sites two_channel_page) \<and> site_channel (sites two_channel_page ! i) = c \<and>
      site_phase (sites two_channel_page ! i) \<noteq> Rendered"
    by (auto simp: two_channel_page_def own_tasks_def example_site_def split: if_splits)
next
  fix x assume "x \<in> set (sites two_channel_page)"
  then show "obj_wf (site_value x)"
    by (auto simp: two_channel_page_def example_site_def obj_wf_def)
qed


section \<open>Properties of a dispatch on a page\<close>

text \<open>C1: an \<open>update(partial)\<close> from any site, in which every site registered on its
  channel can serialise its merged snapshot, completes and reaches each of these sites
  exactly once: each merges \<open>partial\<close> into its own snapshot by spreading, and every
  other site keeps its snapshot.\<close>

theorem update_propagates:
  assumes "world_inv w" "i < length (sites w)" "j < length (sites w)"
    and "\<forall>h \<in> set (own_tasks (bus w) (site_channel (sites w ! i))).
           \<not> isl (to_string H (merged_value w p h))"
  shows "fst (hook_update H i p w) = None \<and>
         site_value (sites (snd (hook_update H i p w)) ! j) =
           (if j \<in> set (own_tasks (bus w) (site_channel (sites w ! i)))
            then obj_spread2 (site_value (sites w ! j)) p else site_value (sites w ! j))"
proof -
  let ?l = "own_tasks (bus w) (site_channel (sites w ! i))"
  have "distinct ?l" and "set ?l \<subseteq> {..<length (sites w)}"
    using world_invD(1,2) [OF assms(1)] by auto
  from run_handlers_no_throw [OF this assms(4)] assms(3) show ?thesis
    by (simp add: hook_update_run_handlers)
qed

theorem update_propagates_witness:
  "world_inv example_page \<and> (0::nat) < length (sites example_page) \<and>
   (1::nat) < length (sites example_page) \<and>
   fst (hook_update int_host 0 [(''active'', JBool False)] example_page) = None \<and>
   site_value (sites (snd (hook_update int_host 0 [(''active'', JBool False)] example_page)) ! 1) =
     [(''count'', JNum (Some 5)), (''active'', JBool False)]"
proof -
  have inv: "world_inv example_page" by (rule world_inv_example_page)
  have l: "(0::nat) < length (sites example_page)" "(1::nat) < length (sites example_page)"
    by (simp_all add: example_page_def)
  have ser: "\<forall>h \<in> set (own_tasks (bus example_page) (site_channel (sites example_page ! 0))).
      \<not> isl (to_string int_host (merged_value example_page [(''active'', JBool False)] h))"
    by (simp add: example_page_def example_site_def own_tasks_def obj_simps to_string_def
                  empty_list_includes_def empty_list_def)
  show ?thesis
    using update_propagates [OF inv l ser] inv l
    by (simp add: example_page_def example_site_def own_tasks_def obj_simps)
qed

text \<open>C2: sites on other channels are untouched by an update, whether it completes or
  throws: snapshot, render counter, phase and schema stay as they were.\<close>

theorem update_isolates_channels:
  assumes "world_inv w" "i < length (sites w)" "j < length (sites w)"
    and "site_channel (sites w ! j) \<noteq> site_channel (sites w ! i)"
  shows "sites (snd (hook_update H i p w)) ! j = sites w ! j"
proof -
  have "j \<notin> set (own_tasks (bus w) (site_channel (sites w ! i)))"
    using world_invD(3) [OF assms(1)] assms(4) by blast
  then show ?thesis
    by (simp add: hook_update_run_handlers run_handlers_other)
qed

theorem update_isolates_channels_witness:
  "world_inv two_channel_page \<and>
   sites (snd (hook_update int_host 0 [(''active'', JBool False)] two_channel_page)) ! 1 =
   example_site\<lparr>site_channel := ''filters''\<rparr>"
proof -
  have "sites (snd (hook_update int_host 0 [(''active'', JBool False)] two_channel_page)) ! 1 =
      sites two_channel_page ! 1"
    by (rule update_isolates_channels [OF world_inv_two_channel_page])
       (simp_all add: two_channel_page_def example_site_def)
  with world_inv_two_channel_page show ?thesis by (simp add: two_channel_page_def)
qed

text \<open>C4: when the merged snapshot of a registered site cannot be serialised
  (\<open>toString()\<close> throws a TypeError on a value with its own \<open>toString\<close> key), the
  update throws out of \<open>emit\<close> at that site: the sites before it have merged,
  re-rendered and written the address, that site has merged its snapshot but neither
  re-rendered nor written the address, and the sites after it never see the update.\<close>

theorem update_stops_at_throw:
  assumes "world_inv w" "j < length (sites w)"
    and "own_tasks (bus w) (site_channel (sites w ! i)) = pre @ h # post"
    and "\<forall>g \<in> set pre. \<not> isl (to_string H (merged_value w p g))"
    and "isl (to_string H (merged_value w p h))"
  shows "fst (hook_update H i p w) = Some TypeError \<and>
    sites (snd (hook_update H i p w)) ! j =
       (if j \<in> set pre then (sites w ! j)\<lparr>site_value := obj_spread2 (site_value (sites w ! j)) p,
                                          site_renders := Suc (site_renders (sites w ! j))\<rparr>
        else if j = h then (sites w ! j)\<lparr>site_value := obj_spread2 (site_value (sites w ! j)) p\<rparr>
        else sites w ! j) \<and>
    location (snd (hook_update H i p w)) =
      (if pre = [] then location w
       else set_search (location w) (projr (to_string H (merged_value w p (last pre)))))"
proof -
  have "distinct (pre @ h # post)" and "set (pre @ h # post) \<subseteq> {..<length (sites w)}"
    using world_invD(1,2) [OF assms(1), where c = "site_channel (sites w ! i)"] assms(3) by auto
  from run_handlers_throw [OF this assms(4,5)] assms(2,3) show ?thesis
    by (simp add: hook_update_run_handlers)
qed

theorem update_stops_at_throw_witness:
  "world_inv example_page \<and>
   fst (hook_update int_host 0 [(''active'', JObj [(''toString'', JNum (Some 1))])] example_page) =
     Some TypeError \<and>
   sites (snd (hook_update int_host 0 [(''active'', JObj [(''toString'', JNum (Some 1))])] example_page)) ! 0 =
     example_site\<lparr>site_value := [(''count'', JNum (Some 5)), (''active'', JObj [(''toString'', JNum (Some 1))])]\<rparr> \<and>
   sites (snd (hook_update int_host 0 [(''active'', JObj [(''toString'', JNum (Some 1))])] example_page)) ! 1 =
     example_site \<and>
   location (snd (hook_update int_host 0 [(''active'', JObj [(''toString'', JNum (Some 1))])] example_page)) =
     example_url"
proof -
  let ?p = "[(''active'', JObj [(''toString'', JNum (Some 1))])]"
  have inv: "world_inv example_page" by (rule world_inv_example_page)
  have t: "own_tasks (bus example_page) (site_channel (sites example_page ! 0)) = [] @ 0 # [1]"
    by (simp add: example_page_def example_site_def own_tasks_def)
  have th: "isl (to_string int_host (merged_value example_page ?p 0))"
    by (simp add: example_page_def example_site_def obj_simps to_string_def empty_list_includes_def
                  empty_list_def)
  have l: "(0::nat) < length (sites example_page)" "(1::nat) < length (sites example_page)"
    by (simp_all add: example_page_def)
  show ?thesis
    using update_stops_at_throw [OF inv l(1) t _ th] update_stops_at_throw [OF inv l(2) t _ th] inv
    by (simp add: example_page_def example_site_def obj_simps)
qed



text \<open>C8: the \<open>off\<close> defect on a page: when a registered site that is not the last one
  of its channel unmounts, it stays registered, and the last registered site, still
  mounted, is unsubscribed in its place: no later update, from any site with any
  payload, changes it again.\<close>

theorem unmount_deafens_last_site:
  assumes inv: "world_inv w" and i: "i < length (sites w)"
    and l: "own_tasks (bus w) (site_channel (sites w ! i)) = l" and il: "i \<in> set l" "last l \<noteq> i"
    and m: "site_phase (sites w ! last l) = Mounted"
  shows "i \<in> set (own_tasks (bus (hook_unmount i w)) (site_channel (sites w ! i))) \<and>
         last l \<notin> set (own_tasks (bus (hook_unmount i w)) (site_channel (sites w ! i))) \<and>
         site_phase (sites (hook_unmount i w) ! last l) = Mounted \<and>
         (\<forall>k p. sites (snd (hook_update H k p (hook_unmount i w))) ! last l =
                sites (hook_unmount i w) ! last l)"
proof -
  let ?c = "site_channel (sites w ! i)" and ?w = "hook_unmount i w" and ?j = "last l"
  have ne: "l \<noteq> []" using il by auto
  have d: "distinct (butlast l @ [?j])"
    using world_invD(1) [OF inv, of ?c] l append_butlast_last_id [OF ne] by simp
  have t: "own_tasks (bus ?w) ?c = butlast l"
    using l by (simp add: hook_unmount_tasks)
  have a: "i \<in> set (butlast l)"
  proof -
    have "i \<in> set (butlast l @ [?j])" using il(1) append_butlast_last_id [OF ne] by simp
    with il(2) show ?thesis by simp
  qed
  have b: "?j \<notin> set (butlast l)" using d by simp
  have sj: "sites ?w ! ?j = sites w ! ?j"
    using il(2) by (simp add: hook_unmount_def)
  have cj: "site_channel (sites ?w ! ?j) = ?c"
    using world_invD(3) [OF inv] l ne sj by (metis last_in_set)
  have "?j \<notin> set (own_tasks (bus ?w) c)" for c
  proof
    assume "?j \<in> set (own_tasks (bus ?w) c)"
    moreover from this have "c = ?c"
      using world_invD(3) [OF world_inv_unmount [OF inv i]] cj by auto
    ultimately show False using t b by simp
  qed
  then have "sites (snd (hook_update H k p ?w)) ! ?j = sites ?w ! ?j" for k p
    by (simp add: hook_update_run_handlers run_handlers_other)
  with a b t m sj show ?thesis by simp
qed

theorem unmount_deafens_last_site_witness:
  "world_inv example_page \<and>
   0 \<in> set (own_tasks (bus (hook_unmount 0 example_page)) ''global'') \<and>
   1 \<notin> set (own_tasks (bus (hook_unmount 0 example_page)) ''global'') \<and>
   site_phase (sites (hook_unmount 0 example_page) ! 1) = Mounted \<and>
   sites (snd (hook_update int_host 1 [(''active'', JBool False)] (hook_unmount 0 example_page))) ! 1 =
     example_site"
proof -
  have l: "own_tasks (bus example_page) (site_channel (sites example_page ! 0)) = [0, 1]"
    by (simp add: example_page_def example_site_def own_tasks_def)
  have "(0::nat) < length (sites example_page)" by (simp add: example_page_def)
  from unmount_deafens_last_site [OF world_inv_example_page this l, of int_host] world_inv_example_page
  show ?thesis by (simp add: example_page_def example_site_def hook_unmount_def)
qed

subsection \<open>The specification's examples\<close>

text \<open>on that page, a site rendered and mounted on the global channel that calls
  \<open>update({active: false})\<close> holds \<open>{count: 5, active: false}\<close>, and the address bar
  shows \<open>?count=5&active=false\<close>, \<open>count\<close> first, with path and fragment kept.\<close>

theorem update_spec_example:
  "map_sum id (\<lambda>w. (site_value (sites w ! 0), location w))
     (run_page int_host [Render example_schema None, Mount 0, Update 0 [(''active'', JBool False)]]
        (initial_world example_url)) =
   Inr ([(''count'', JNum (Some 5)), (''active'', JBool False)],
        example_url\<lparr>url_query := Some ''count=5&active=false''\<rparr>)"
  by code_simp

subsection \<open>Where the code and the specification part\<close>

text \<open>the \<open>off\<close> defect on a page: two sites mounted on the global channel; when
  the first unmounts, the second is unsubscribed instead, and its own \<open>update\<close> then
  reaches the unmounted first site and not itself.\<close>

theorem unmount_unsubscribes_other_site:
  "map_sum id (\<lambda>w. (site_value (sites w ! 0), site_value (sites w ! 1), own_tasks (bus w) ''global''))
     (run_page int_host [Render example_schema None, Render example_schema None, Mount 0, Mount 1,
                         Unmount 0, Update 1 [(''active'', JBool False)]]
        (initial_world example_url)) =
   Inr ([(''count'', JNum (Some 5)), (''active'', JBool False)],
        [(''count'', JNum (Some 5)), (''active'', JBool True)], [0])"
  by code_simp

text \<open>the snapshot is taken at render and the handler subscribed in the effect: an
  update published between a site's render and its effect never reaches it, so the site
  stays stale while the URL has moved on.\<close>

theorem update_before_mount_missed:
  "map_sum id (\<lambda>w. (site_value (sites w ! 1), location_search (location w)))
     (run_page int_host [Render example_schema None, Render example_schema None, Mount 0,
                         Update 0 [(''active'', JBool False)], Mount 1]
        (initial_world example_url)) =
   Inr ([(''count'', JNum (Some 5)), (''active'', JBool True)], ''?count=5&active=false'')"
  by code_simp


text \<open>\<open>checkType\<close> coerces a number field with unary plus, and ToNumber of the
  empty text is 0: a page opened at \<open>?count=\<close> reads \<open>{count: 0}\<close>, not NaN, and
  its first update, even \<open>update({})\<close>, writes \<open>count=0\<close> into the address bar.\<close>

theorem empty_number_field_written_as_zero:
  "map_sum id (\<lambda>w. (site_value (sites w ! 0), location_search (location w)))
     (run_page int_host [Render example_schema None, Mount 0, Update 0 []]
        (initial_world (example_url\<lparr>url_query := Some ''count=''\<rparr>))) =
   Inr ([(''count'', JNum (Some 0))], ''?count=0'')"
  by code_simp

subsection \<open>The page invariant and the effects of an update\<close>

lemma reachable_example_mounted: "reachable int_host example_mounted"
proof -
  have "reachable int_host example_rendered"
    by (rule reachable.render [OF reachable.start example_render_step])
       (simp add: example_schema_def obj_wf_def)
  then show ?thesis
    by (rule reachable.mount [OF _ _ _ example_mount_step])
       (simp_all add: example_rendered_def example_site_def)
qed

text \<open>C12: in every page reachable by renders, effects, cleanups, updates and
  navigation, each registered handler is a mounted or unmounted site listening on that
  channel, no channel lists a handler twice, and every snapshot is a well-formed
  object.\<close>

theorem reachable_world_inv: "reachable H w \<Longrightarrow> world_inv w"
  by (rule world_inv_reachable)

theorem reachable_world_inv_witness:
  "reachable int_host example_mounted \<and> world_inv example_mounted"
  using reachable_world_inv [OF reachable_example_mounted] reachable_example_mounted by simp

text \<open>C11: after an update in which every registered site serialises its merged
  snapshot, the address bar holds the serialisation of the merged snapshot of the last
  site registered on the channel (each handler writes it in turn), and is unchanged when
  no site is registered.\<close>

theorem update_location:
  assumes "world_inv w" "i < length (sites w)"
    and "\<forall>h \<in> set (own_tasks (bus w) (site_channel (sites w ! i))).
           \<not> isl (to_string H (merged_value w p h))"
  shows "location (snd (hook_update H i p w)) =
           (let l = own_tasks (bus w) (site_channel (sites w ! i))
            in if l = [] then location w
               else set_search (location w)
                      (projr (to_string H (obj_spread2 (site_value (sites w ! last l)) p))))"
proof -
  let ?l = "own_tasks (bus w) (site_channel (sites w ! i))"
  have "distinct ?l" and "set ?l \<subseteq> {..<length (sites w)}"
    using world_invD(1,2) [OF assms(1)] by auto
  from run_handlers_no_throw [OF this assms(3)] show ?thesis
    by (simp add: hook_update_run_handlers Let_def)
qed

theorem update_location_witness:
  "world_inv example_page \<and> (0::nat) < length (sites example_page) \<and>
   location_search (location (snd (hook_update int_host 0 [(''active'', JBool False)] example_page))) =
     ''?count=5&active=false''"
proof -
  have l: "(0::nat) < length (sites example_page)" by (simp add: example_page_def)
  have ser: "\<forall>h \<in> set (own_tasks (bus example_page) (site_channel (sites example_page ! 0))).
      \<not> isl (to_string int_host (merged_value example_page [(''active'', JBool False)] h))"
    by (simp add: example_page_def example_site_def own_tasks_def obj_simps to_string_def
                  empty_list_includes_def empty_list_def)
  have "location_search (set_search example_url (projr (to_string int_host
      (obj_spread2 [(''count'', JNum (Some 5)), (''active'', JBool True)] [(''active'', JBool False)])))) =
      ''?count=5&active=false''"
    by code_simp
  then show ?thesis
    using update_location [OF world_inv_example_page l ser] world_inv_example_page l
    by (simp add: example_page_def example_site_def own_tasks_def)
qed

text \<open>a site whose channel id is the name of an \<open>Object.prototype\<close> property,
  such as \<open>constructor\<close>, renders, but its effect throws: the emitter's \<open>push\<close> is not
  a function there.\<close>

theorem mount_fails_on_prototype_channel:
  "run_page int_host [Render example_schema (Some ''constructor''), Mount 0] (initial_world example_url) =
   Inl (EffectError PushNotFunction)"
proof -
  have "case run_page int_host [Render example_schema (Some ''constructor''), Mount 0]
              (initial_world example_url) of
          Inl e \<Rightarrow> e = EffectError PushNotFunction | Inr _ \<Rightarrow> False"
    by code_simp
  then show ?thesis by (simp del: run_page.simps split: sum.splits)
qed

text \<open>\<open>toString()\<close> writes a non-primitive value with ToString: a URL whose
  boolean field holds the JSON object \<open>{}\<close> renders, but after any update the query
  holds \<open>active=[object%20Object]\<close>, which is not JSON, and the next render of the hook
  throws.\<close>

theorem object_field_breaks_next_render:
  "map_sum id (\<lambda>w. (site_value (sites w ! 0), location_search (location w)))
     (run_page int_host [Render example_schema None, Mount 0, Update 0 [(''count'', JNum (Some 7))]]
        (initial_world (example_url\<lparr>url_query := Some ''count=5&active={}''\<rparr>))) =
   Inr ([(''count'', JNum (Some 7)), (''active'', JObj [])], ''?count=7&active=[object%20Object]'') \<and>
   run_page int_host [Render example_schema None, Mount 0, Update 0 [(''count'', JNum (Some 7))],
                      Render example_schema None]
     (initial_world (example_url\<lparr>url_query := Some ''count=5&active={}''\<rparr>)) =
   Inl (RenderError SyntaxError)"
proof -
  have a: "map_sum id (\<lambda>w. (site_value (sites w ! 0), location_search (location w)))
     (run_page int_host [Render example_schema None, Mount 0, Update 0 [(''count'', JNum (Some 7))]]
        (initial_world (example_url\<lparr>url_query := Some ''count=5&active={}''\<rparr>))) =
   Inr ([(''count'', JNum (Some 7)), (''active'', JObj [])], ''?count=7&active=[object%20Object]'')"
    by code_simp
  have "case run_page int_host [Render example_schema None, Mount 0, Update 0 [(''count'', JNum (Some 7))],
                      Render example_schema None]
     (initial_world (example_url\<lparr>url_query := Some ''count=5&active={}''\<rparr>)) of
       Inl e \<Rightarrow> e = RenderError SyntaxError | Inr _ \<Rightarrow> False"
    by code_simp
  then have b: "run_page int_host [Render example_schema None, Mount 0, Update 0 [(''count'', JNum (Some 7))],
                      Render example_schema None]
     (initial_world (example_url\<lparr>url_query := Some ''count=5&active={}''\<rparr>)) =
   Inl (RenderError SyntaxError)"
    by (simp del: run_page.simps split: sum.splits)
  from a b show ?thesis by simp
qed

end
