(* ===== verification/Subscriptions.thy ===== *)
theory Subscriptions
  imports Page
begin

text \<open>
  The subscriptions of a page (src/index.ts lines 73--78, the effect of
  \<open>useSearchParams\<close>, and its cleanup): how many handlers the module-level emitter
  holds. On every reachable page each channel lists exactly one handler per site that
  is mounted on it (\<open>count_inv\<close>, proved by rule induction over \<open>reachable\<close>),
  although \<open>off\<close> removes the channel's last handler rather than the given one. Hence
  the liveness property: from any reachable page, running the cleanups of the mounted
  sites (\<open>mounted_sites\<close>) is a run of \<open>run_page\<close> that succeeds and reaches a
  reachable page whose emitter holds no handler. Until the first cleanup the handlers
  of a channel are exactly its mounted sites, so an update reaches all of them.
\<close>

section \<open>Counting subscriptions\<close>

text \<open>The number of sites mounted on a channel, the counting invariant, and the sites
  whose cleanup is still to run.\<close>

definition mounted_on :: "'n world \<Rightarrow> channel \<Rightarrow> nat" where
  "mounted_on w c =
     length (filter (\<lambda>s. site_phase s = Mounted \<and> site_channel s = c) (sites w))"

definition count_inv :: "'n world \<Rightarrow> bool" where
  "count_inv w \<longleftrightarrow> (\<forall>c. length (own_tasks (bus w) c) = mounted_on w c)"

definition mounted_sites :: "'n world \<Rightarrow> site_id list" where
  "mounted_sites w = filter (\<lambda>i. site_phase (sites w ! i) = Mounted) [0..<length (sites w)]"

text \<open>What a site contributes to the count: its phase and its channel.\<close>

abbreviation site_proj :: "'n site \<Rightarrow> phase \<times> channel" where
  "site_proj s \<equiv> (site_phase s, site_channel s)"

section \<open>Lemmas\<close>

subsection \<open>The count is a function of the phases and channels\<close>

lemma mounted_on_update:
  assumes "i < length (sites w)"
  shows "mounted_on (w\<lparr>sites := (sites w)[i := s]\<rparr>) c +
           (if site_phase (sites w ! i) = Mounted \<and> site_channel (sites w ! i) = c then 1 else 0) =
         mounted_on w c + (if site_phase s = Mounted \<and> site_channel s = c then 1 else 0)"
  using length_filter_list_update [OF assms, of "\<lambda>s. site_phase s = Mounted \<and> site_channel s = c" s]
  by (simp add: mounted_on_def)

lemma mounted_on_proj:
  assumes "map site_proj (sites w') = map site_proj (sites w)"
  shows "mounted_on w' c = mounted_on w c"
proof -
  have "length (filter (\<lambda>(ph, ch). ph = Mounted \<and> ch = c) (map site_proj (sites w'))) =
        length (filter (\<lambda>(ph, ch). ph = Mounted \<and> ch = c) (map site_proj (sites w)))"
    by (simp only: assms)
  then show ?thesis by (simp add: mounted_on_def filter_map comp_def)
qed

subsection \<open>Every step keeps the count\<close>

lemma count_inv_initial: "count_inv (initial_world u)"
  by (simp add: count_inv_def mounted_on_def initial_world_def new_emitter_def own_tasks_def)

lemma count_inv_render:
  assumes inv: "count_inv w" and r: "hook_render H fs chan w = Inr (i, w')"
  shows "count_inv w'"
  using inv hook_render_Inr [OF r] by (auto simp: count_inv_def mounted_on_def)

lemma count_inv_mount:
  assumes inv: "count_inv w" and i: "i < length (sites w)"
    and ph: "site_phase (sites w ! i) = Rendered" and m: "hook_mount i w = Inr w'"
  shows "count_inv w'"
proof -
  let ?c = "site_channel (sites w ! i)"
  from m have e: "em_on ?c (Fn i) (bus w) = Inr (bus w')"
    and s: "w' = w\<lparr>bus := bus w', sites := (sites w)[i := (sites w ! i)\<lparr>site_phase := Mounted\<rparr>]\<rparr>"
    by (auto simp: hook_mount_def split: sum.splits)
  from e have "bus w' = (bus w)\<lparr>eventMap := (eventMap (bus w))(?c \<mapsto> own_tasks (bus w) ?c @ [i])\<rparr>"
    by (simp add: em_on_Fn split: if_splits)
  then have t: "own_tasks (bus w') c =
      (if c = ?c then own_tasks (bus w) ?c @ [i] else own_tasks (bus w) c)" for c
    by simp
  have mo: "mounted_on w' c = mounted_on w c + (if c = ?c then 1 else 0)" for c
    using mounted_on_update [OF i, of "(sites w ! i)\<lparr>site_phase := Mounted\<rparr>" c] ph
    by (subst s) (simp add: mounted_on_def)
  show ?thesis
    using inv by (simp add: count_inv_def t mo)
qed

text \<open>The cleanup of a mounted site: the channel has a handler to lose, since the site
  is counted, and \<open>off\<close> removes exactly one.\<close>

lemma count_inv_unmount:
  assumes inv: "count_inv w" and i: "i < length (sites w)"
    and ph: "site_phase (sites w ! i) = Mounted"
  shows "count_inv (hook_unmount i w)"
proof -
  let ?c = "site_channel (sites w ! i)"
  have h: "mounted_on (hook_unmount i w) c =
      mounted_on (w\<lparr>sites := (sites w)[i := (sites w ! i)\<lparr>site_phase := Unmounted\<rparr>]\<rparr>) c" for c
    by (simp add: hook_unmount_def mounted_on_def)
  have mo: "mounted_on (hook_unmount i w) c + (if c = ?c then 1 else 0) = mounted_on w c" for c
    using mounted_on_update [OF i, of "(sites w ! i)\<lparr>site_phase := Unmounted\<rparr>" c] ph
    by (auto simp: h)
  have "length (own_tasks (bus w) ?c) = mounted_on w ?c"
    using inv by (simp add: count_inv_def)
  with mo [of ?c] have ne: "own_tasks (bus w) ?c \<noteq> []" by auto
  have t: "own_tasks (bus (hook_unmount i w)) c =
      (if c = ?c then butlast (own_tasks (bus w) ?c) else own_tasks (bus w) c)" for c
    using ne by (simp add: hook_unmount_def em_off_eq)
  show ?thesis
    unfolding count_inv_def
  proof
    fix c
    show "length (own_tasks (bus (hook_unmount i w)) c) = mounted_on (hook_unmount i w) c"
      using inv mo [of c] ne by (auto simp: count_inv_def t)
  qed
qed

lemma count_inv_update: "count_inv w \<Longrightarrow> count_inv (snd (hook_update H i p w))"
  by (simp add: count_inv_def hook_update_run_handlers mounted_on_proj [OF run_handlers_shape])

lemma count_inv_reachable: "reachable H w \<Longrightarrow> count_inv w"
proof (induction rule: reachable.induct)
  case (start u)
  then show ?case by (rule count_inv_initial)
next
  case (render w fs chan i w')
  then show ?case by (blast intro: count_inv_render)
next
  case (mount w i w')
  then show ?case by (blast intro: count_inv_mount)
next
  case (unmount w i)
  then show ?case by (blast intro: count_inv_unmount)
next
  case (update w i p)
  then show ?case by (blast intro: count_inv_update)
next
  case (navigate w u)
  then show ?case by (simp add: count_inv_def mounted_on_def)
qed

subsection \<open>Running the cleanups of the mounted sites\<close>

lemma run_page_unmounts: "run_page H (map Unmount l) w = Inr (fold hook_unmount l w)"
  by (induction l arbitrary: w) simp_all

lemma hook_unmount_sites [simp]:
  "length (sites (hook_unmount i w)) = length (sites w)"
  "j \<noteq> i \<Longrightarrow> sites (hook_unmount i w) ! j = sites w ! j"
  by (simp_all add: hook_unmount_def)

text \<open>A property that every cleanup of a mounted site keeps holds after the cleanups
  of a list of distinct mounted sites.\<close>

lemma fold_unmount_induct:
  assumes "P w" "distinct l"
    and "\<forall>i \<in> set l. i < length (sites w) \<and> site_phase (sites w ! i) = Mounted"
    and step: "\<And>w i. P w \<Longrightarrow> i < length (sites w) \<Longrightarrow> site_phase (sites w ! i) = Mounted \<Longrightarrow>
       P (hook_unmount i w)"
  shows "P (fold hook_unmount l w)"
  using assms(1-3)
proof (induction l arbitrary: w)
  case (Cons i l)
  then have "P (hook_unmount i w)" by (simp add: step)
  moreover have "\<forall>j \<in> set l. j < length (sites (hook_unmount i w)) \<and>
      site_phase (sites (hook_unmount i w) ! j) = Mounted"
  proof
    fix j
    assume j: "j \<in> set l"
    with Cons.prems(2) have "j \<noteq> i" by auto
    with j Cons.prems(3) show "j < length (sites (hook_unmount i w)) \<and>
        site_phase (sites (hook_unmount i w) ! j) = Mounted" by simp
  qed
  ultimately show ?case using Cons.IH Cons.prems(2) by simp
qed simp

lemma fold_unmount_sites:
  "length (sites (fold hook_unmount l w)) = length (sites w) \<and>
   (\<forall>j < length (sites w).
      site_phase (sites (fold hook_unmount l w) ! j) =
        (if j \<in> set l then Unmounted else site_phase (sites w ! j)) \<and>
      site_channel (sites (fold hook_unmount l w) ! j) = site_channel (sites w ! j))"
proof (induction l arbitrary: w)
  case (Cons a l)
  have "length (sites (hook_unmount a w)) = length (sites w)"
    and "j < length (sites w) \<Longrightarrow>
      site_phase (sites (hook_unmount a w) ! j) = (if j = a then Unmounted else site_phase (sites w ! j)) \<and>
      site_channel (sites (hook_unmount a w) ! j) = site_channel (sites w ! j)" for j
    by (auto simp: hook_unmount_def nth_list_update)
  with Cons.IH [of "hook_unmount a w"] show ?case by auto
qed simp

lemma mounted_sites_mounted:
  "distinct (mounted_sites w) \<and>
   (\<forall>i \<in> set (mounted_sites w). i < length (sites w) \<and> site_phase (sites w ! i) = Mounted)"
  by (simp add: mounted_sites_def)

lemma fold_unmount_none_mounted:
  "s \<in> set (sites (fold hook_unmount (mounted_sites w) w)) \<Longrightarrow> site_phase s \<noteq> Mounted"
proof -
  let ?w' = "fold hook_unmount (mounted_sites w) w"
  assume "s \<in> set (sites ?w')"
  then obtain j where j: "j < length (sites w)" and s: "s = sites ?w' ! j"
    using fold_unmount_sites [of "mounted_sites w" w] by (auto simp: in_set_conv_nth)
  have "site_phase s = (if j \<in> set (mounted_sites w) then Unmounted else site_phase (sites w ! j))"
    using fold_unmount_sites [of "mounted_sites w" w] j s by simp
  with j show ?thesis by (simp add: mounted_sites_def)
qed

subsection \<open>Before the first cleanup the handlers are the mounted sites\<close>

text \<open>With \<open>world_inv\<close> a channel's handlers are distinct sites of that channel that
  have run their effect; with the count they are all of its mounted sites as long as
  no cleanup has run.\<close>

lemma reachable_handlers_mounted:
  assumes r: "reachable H w" and nu: "\<forall>s \<in> set (sites w). site_phase s \<noteq> Unmounted"
  shows "set (own_tasks (bus w) c) =
    {j. j < length (sites w) \<and> site_phase (sites w ! j) = Mounted \<and> site_channel (sites w ! j) = c}"
proof (rule card_subset_eq)
  have inv: "world_inv w" by (rule world_inv_reachable [OF r])
  show "set (own_tasks (bus w) c) \<subseteq>
    {j. j < length (sites w) \<and> site_phase (sites w ! j) = Mounted \<and> site_channel (sites w ! j) = c}"
  proof
    fix j
    assume j: "j \<in> set (own_tasks (bus w) c)"
    then have "j < length (sites w)" by (rule world_invD(2) [OF inv])
    with nu world_invD(3,4) [OF inv j] show "j \<in> {j. j < length (sites w) \<and>
        site_phase (sites w ! j) = Mounted \<and> site_channel (sites w ! j) = c}"
      by (cases "site_phase (sites w ! j)") auto
  qed
  have "card (set (own_tasks (bus w) c)) = length (own_tasks (bus w) c)"
    by (rule distinct_card [OF world_invD(1) [OF inv]])
  also have "\<dots> = mounted_on w c"
    using count_inv_reachable [OF r] by (simp add: count_inv_def)
  also have "\<dots> = card {j. j < length (sites w) \<and> site_phase (sites w ! j) = Mounted \<and>
      site_channel (sites w ! j) = c}"
    by (simp add: mounted_on_def length_filter_conv_card)
  finally show "card (set (own_tasks (bus w) c)) = card {j. j < length (sites w) \<and>
      site_phase (sites w ! j) = Mounted \<and> site_channel (sites w ! j) = c}" .
qed simp

section \<open>Properties of the subscriptions\<close>

text \<open>C13: on every reachable page, a channel of the emitter lists exactly as many
  handlers as there are sites mounted on it: each effect adds one, each cleanup removes
  one (not necessarily the site's own), updates, renders and navigation add none.\<close>

theorem reachable_subscription_count:
  "reachable H w \<Longrightarrow>
   length (own_tasks (bus w) c) =
   length (filter (\<lambda>s. site_phase s = Mounted \<and> site_channel s = c) (sites w))"
  using count_inv_reachable [of H w] by (simp add: count_inv_def mounted_on_def)

theorem reachable_subscription_count_witness:
  "reachable int_host example_mounted \<and> length (own_tasks (bus example_mounted) ''global'') = 1"
  using reachable_subscription_count [OF reachable_example_mounted, of "''global''"]
    reachable_example_mounted
  by (simp add: example_mounted_def example_site_def)

text \<open>C14: from every reachable page the emitter can be emptied: running the cleanups
  of the mounted sites, in any page of React's making, succeeds and reaches a reachable
  page on which no channel holds a handler, so no \<open>updateByChannelId\<close> of a gone site
  stays registered.\<close>

theorem cleanups_release_handlers:
  "reachable H w \<Longrightarrow>
   \<exists>w'. run_page H (map Unmount (mounted_sites w)) w = Inr w' \<and> reachable H w' \<and>
        (\<forall>c. own_tasks (bus w') c = [])"
proof -
  assume r: "reachable H w"
  let ?l = "mounted_sites w"
  let ?w' = "fold hook_unmount ?l w"
  have inv: "count_inv ?w'"
    using fold_unmount_induct [of count_inv w ?l] count_inv_reachable [OF r]
      mounted_sites_mounted [of w] count_inv_unmount
    by blast
  have reach: "reachable H ?w'"
    using fold_unmount_induct [of "reachable H" w ?l] r mounted_sites_mounted [of w]
      reachable.unmount
    by blast
  have "mounted_on ?w' c = 0" for c
    using fold_unmount_none_mounted [of _ w] by (simp add: mounted_on_def filter_empty_conv)
  with inv have "own_tasks (bus ?w') c = []" for c by (simp add: count_inv_def)
  with reach show ?thesis by (simp add: run_page_unmounts)
qed

theorem cleanups_release_handlers_witness:
  "reachable int_host example_mounted \<and> mounted_sites example_mounted = [0] \<and>
   (\<exists>w'. run_page int_host [Unmount 0] example_mounted = Inr w' \<and> reachable int_host w' \<and>
        (\<forall>c. own_tasks (bus w') c = []))"
proof -
  have m: "mounted_sites example_mounted = [0]"
    by (simp add: mounted_sites_def example_mounted_def example_site_def)
  show ?thesis
    using cleanups_release_handlers [OF reachable_example_mounted] reachable_example_mounted m
    by simp
qed

text \<open>C3: the specification's promise that two sites of one channel both reflect an
  update when it returns (no staleness window) holds until the first cleanup, for an
  update every mounted site of the channel can serialise: on a reachable page where no
  site has been unmounted, the \<open>update\<close> a site's hook returned completes, and every
  site mounted on its channel then reads, from the \<open>search\<close> object its hook returns,
  the partial update merged into its own snapshot, and its \<open>toString()\<close> serialises
  that snapshot.\<close>

theorem update_reaches_mounted_sites:
  assumes r: "reachable H w" and nu: "\<forall>s \<in> set (sites w). site_phase s \<noteq> Unmounted"
    and i: "i < length (sites w)" and j: "j < length (sites w)"
    and m: "site_phase (sites w ! j) = Mounted"
    and c: "site_channel (sites w ! j) = site_channel (sites w ! i)"
    and ser: "\<forall>k < length (sites w). site_phase (sites w ! k) = Mounted \<longrightarrow>
                site_channel (sites w ! k) = site_channel (sites w ! i) \<longrightarrow>
                \<not> isl (to_string H (obj_spread2 (site_value (sites w ! k)) p))"
  shows "fst (snd (use_search_params H i w) p w) = None \<and>
         search_value (fst (use_search_params H j (snd (snd (use_search_params H i w) p w)))) =
           obj_spread2 (site_value (sites w ! j)) p \<and>
         search_to_string (fst (use_search_params H j (snd (snd (use_search_params H i w) p w)))) =
           to_string H (obj_spread2 (site_value (sites w ! j)) p)"
proof -
  let ?l = "own_tasks (bus w) (site_channel (sites w ! i))"
  have inv: "world_inv w" by (rule world_inv_reachable [OF r])
  have d: "distinct ?l" and sub: "set ?l \<subseteq> {..<length (sites w)}"
    using world_invD(1,2) [OF inv] by auto
  have hl: "set ?l = {k. k < length (sites w) \<and> site_phase (sites w ! k) = Mounted \<and>
                         site_channel (sites w ! k) = site_channel (sites w ! i)}"
    by (rule reachable_handlers_mounted [OF r nu])
  have "\<forall>h \<in> set ?l. \<not> isl (to_string H (merged_value w p h))"
    using ser by (simp add: hl)
  from run_handlers_no_throw [OF d sub this] have
    "fst (run_handlers H ?l p w) = None \<and>
     sites (snd (run_handlers H ?l p w)) ! j =
       (sites w ! j)\<lparr>site_value := merged_value w p j, site_renders := Suc (site_renders (sites w ! j))\<rparr>"
    using j m c by (simp add: hl)
  then show ?thesis
    by (simp add: use_search_params_def Let_def hook_update_run_handlers)
qed

theorem update_reaches_mounted_sites_witness:
  "reachable int_host example_mounted \<and> sites example_mounted = [example_site] \<and>
   site_phase example_site = Mounted \<and>
   fst (snd (use_search_params int_host 0 example_mounted) [(''active'', JBool False)] example_mounted) =
     None \<and>
   search_value (fst (use_search_params int_host 0
     (snd (snd (use_search_params int_host 0 example_mounted) [(''active'', JBool False)]
       example_mounted)))) =
   [(''count'', JNum (Some 5)), (''active'', JBool False)]"
proof -
  have nu: "\<forall>s \<in> set (sites example_mounted). site_phase s \<noteq> Unmounted"
    and l: "(0::nat) < length (sites example_mounted)"
    and m: "site_phase (sites example_mounted ! 0) = Mounted"
    by (simp_all add: example_mounted_def example_site_def)
  have ser: "\<forall>k < length (sites example_mounted). site_phase (sites example_mounted ! k) = Mounted \<longrightarrow>
      site_channel (sites example_mounted ! k) = site_channel (sites example_mounted ! 0) \<longrightarrow>
      \<not> isl (to_string int_host (obj_spread2 (site_value (sites example_mounted ! k))
                                  [(''active'', JBool False)]))"
    by (simp add: example_mounted_def example_site_def obj_simps to_string_def
                  empty_list_includes_def empty_list_def less_Suc_eq)
  show ?thesis
    using update_reaches_mounted_sites [OF reachable_example_mounted nu l l m refl ser]
      reachable_example_mounted nu
    by (simp add: example_mounted_def example_site_def obj_simps)
qed

end
