(* ===== verification/StrictMode.thy ===== *)
theory StrictMode
  imports Subscriptions
begin

text \<open>
  The React host's StrictMode on a page of src/index.ts: the effects of a batch of
  freshly mounted sites run twice with their cleanups in between
  (\<open>strict_effects\<close>). A run of mounts is characterised by \<open>run_mounts\<close> (each
  effect pushes its site on its channel), a run of cleanups by \<open>run_unmounts\<close> (each
  cleanup drops the last handler of its channel), and the two compose to the identity
  on the emitter, so the double run equals the single one.
\<close>

section \<open>StrictMode's double effects\<close>

text \<open>React's StrictMode (development builds) runs every effect of a newly mounted
  batch of components, then every cleanup, then every effect again, in the same
  order.\<close>

definition strict_effects :: "site_id list \<Rightarrow> 'n page_event list" where
  "strict_effects b = map Mount b @ map Unmount b @ map Mount b"

text \<open>The phase of a batch of sites after a run of their effects or cleanups, the
  channel of a site, and how many sites of a batch listen on a channel.\<close>

definition set_phases :: "site_id list \<Rightarrow> phase \<Rightarrow> 'n site list \<Rightarrow> 'n site list" where
  "set_phases b ph xs = fold (\<lambda>i xs. xs[i := (xs ! i)\<lparr>site_phase := ph\<rparr>]) b xs"

definition chan :: "'n world \<Rightarrow> site_id \<Rightarrow> channel" where
  "chan w i = site_channel (sites w ! i)"

definition count_on :: "'n world \<Rightarrow> site_id list \<Rightarrow> channel \<Rightarrow> nat" where
  "count_on w b c = length (filter (\<lambda>i. chan w i = c) b)"

section \<open>Lemmas\<close>

lemma run_page_append:
  "run_page H (es @ fs) w =
     (case run_page H es w of Inl e \<Rightarrow> Inl e | Inr w' \<Rightarrow> run_page H fs w')"
proof (induction es arbitrary: w)
  case (Cons e es)
  then show ?case by (simp split: sum.split)
qed simp

lemma nth_phase_update:
  "(xs[i := (xs ! i)\<lparr>site_phase := ph\<rparr>]) ! j =
     (if j = i \<and> i < length xs then (xs ! j)\<lparr>site_phase := ph\<rparr> else xs ! j)"
  by (cases "i < length xs") (auto simp: nth_list_update list_update_beyond)

lemma set_phases_nth:
  "length (set_phases b ph xs) = length xs \<and>
   (\<forall>j. set_phases b ph xs ! j =
          (if j \<in> set b \<and> j < length xs then (xs ! j)\<lparr>site_phase := ph\<rparr> else xs ! j))"
  unfolding set_phases_def
proof (induction b arbitrary: xs)
  case (Cons i b)
  show ?case
    using Cons.IH [of "xs[i := (xs ! i)\<lparr>site_phase := ph\<rparr>]"] by (auto simp: nth_phase_update)
qed simp

lemma set_phases_absorb:
  "set_phases b ph (set_phases b ph' xs) = set_phases b ph xs"
  by (rule nth_equalityI) (simp_all add: set_phases_nth)

lemma chan_phase_update [simp]:
  "chan (w\<lparr>bus := e, sites := (sites w)[i := (sites w ! i)\<lparr>site_phase := ph\<rparr>]\<rparr>) = chan w"
  by (simp add: fun_eq_iff chan_def nth_phase_update)

lemma run_mounts:
  "run_page H (map Mount b) w = Inr w' \<Longrightarrow>
   sites w' = set_phases b Mounted (sites w) \<and> location w' = location w \<and> chan w' = chan w \<and>
   (\<forall>c. own_tasks (bus w') c = own_tasks (bus w) c @ filter (\<lambda>i. chan w i = c) b) \<and>
   (\<forall>c. eventMap (bus w') c =
          (if c \<in> chan w ` set b then Some (own_tasks (bus w') c) else eventMap (bus w) c))"
proof (induction b arbitrary: w)
  case Nil
  then show ?case by (simp add: set_phases_def)
next
  case (Cons i b)
  obtain w1 where m: "hook_mount i w = Inr w1" and r: "run_page H (map Mount b) w1 = Inr w'"
    using Cons.prems by (auto split: sum.splits)
  have w1: "w1 = w\<lparr>bus := (bus w)\<lparr>eventMap := (eventMap (bus w))(chan w i \<mapsto> own_tasks (bus w) (chan w i) @ [i])\<rparr>,
                   sites := (sites w)[i := (sites w ! i)\<lparr>site_phase := Mounted\<rparr>]\<rparr>"
    using m by (auto simp: hook_mount_def em_on_Fn chan_def split: if_splits sum.splits)
  have c1: "chan w1 = chan w" by (simp add: w1)
  have o1: "own_tasks (bus w1) c = own_tasks (bus w) c @ (if chan w i = c then [i] else [])" for c
    by (simp add: w1 own_tasks_def)
  have e1: "eventMap (bus w1) c =
      (if c = chan w i then Some (own_tasks (bus w1) c) else eventMap (bus w) c)" for c
    by (simp add: w1 own_tasks_def)
  note ih = Cons.IH [OF r, unfolded c1]
  have s: "sites w' = set_phases (i # b) Mounted (sites w)"
    using ih by (simp add: set_phases_def w1)
  have o: "own_tasks (bus w') c = own_tasks (bus w) c @ filter (\<lambda>i. chan w i = c) (i # b)" for c
    using ih by (simp add: o1)
  have e: "eventMap (bus w') c =
      (if c \<in> chan w ` set (i # b) then Some (own_tasks (bus w') c) else eventMap (bus w) c)" for c
  proof (cases "c \<in> chan w ` set b")
    case True
    with ih show ?thesis by simp
  next
    case False
    with ih have "eventMap (bus w') c = eventMap (bus w1) c" and "own_tasks (bus w') c = own_tasks (bus w1) c"
      by (auto simp: filter_empty_conv)
    with False e1 [of c] show ?thesis by (cases "c = chan w i") simp_all
  qed
  show ?case
    using ih s o e by (simp add: w1)
qed

lemma run_mounts_ok:
  "\<forall>i \<in> set b. eventMap (bus w) (chan w i) \<noteq> None \<Longrightarrow> \<exists>w'. run_page H (map Mount b) w = Inr w'"
proof (induction b arbitrary: w)
  case (Cons i b)
  let ?w1 = "w\<lparr>bus := (bus w)\<lparr>eventMap := (eventMap (bus w))(chan w i \<mapsto> own_tasks (bus w) (chan w i) @ [i])\<rparr>,
                sites := (sites w)[i := (sites w ! i)\<lparr>site_phase := Mounted\<rparr>]\<rparr>"
  have m: "hook_mount i w = Inr ?w1"
    using Cons.prems by (simp add: hook_mount_def em_on_Fn chan_def)
  have "\<forall>j \<in> set b. eventMap (bus ?w1) (chan ?w1 j) \<noteq> None"
    using Cons.prems by simp
  from Cons.IH [OF this] m show ?case by simp
qed simp

lemma run_unmounts:
  "\<forall>c. count_on w b c \<le> length (own_tasks (bus w) c) \<Longrightarrow>
   sites (fold hook_unmount b w) = set_phases b Unmounted (sites w) \<and>
   location (fold hook_unmount b w) = location w \<and> chan (fold hook_unmount b w) = chan w \<and>
   (\<forall>c. eventMap (bus (fold hook_unmount b w)) c =
          map_option (\<lambda>l. take (length l - count_on w b c) l) (eventMap (bus w) c))"
proof (induction b arbitrary: w)
  case Nil
  then show ?case by (simp add: set_phases_def count_on_def option.map_ident)
next
  case (Cons i b)
  let ?c = "chan w i"
  have "1 \<le> length (own_tasks (bus w) ?c)"
    using Cons.prems [rule_format, of ?c] by (simp add: count_on_def)
  then have ne: "own_tasks (bus w) ?c \<noteq> []" by auto
  define l where "l = own_tasks (bus w) ?c"
  have l: "eventMap (bus w) ?c = Some l" "l \<noteq> []"
    using ne unfolding l_def own_tasks_def by (auto split: option.splits)
  let ?w1 = "hook_unmount i w"
  have w1: "?w1 = w\<lparr>bus := (bus w)\<lparr>eventMap := (eventMap (bus w))(?c \<mapsto> butlast l)\<rparr>,
                    sites := (sites w)[i := (sites w ! i)\<lparr>site_phase := Unmounted\<rparr>]\<rparr>"
    using l by (simp add: hook_unmount_def em_off_eq own_tasks_def chan_def)
  have c1: "chan ?w1 = chan w" by (simp add: w1)
  have cnt: "count_on w (i # b) c = count_on w b c + (if c = ?c then 1 else 0)" for c
    by (simp add: count_on_def)
  have "\<forall>c. count_on ?w1 b c \<le> length (own_tasks (bus ?w1) c)"
  proof
    fix c
    show "count_on ?w1 b c \<le> length (own_tasks (bus ?w1) c)"
      using Cons.prems [rule_format, of c] l
      by (cases "c = ?c") (simp_all add: c1 cnt count_on_def w1 own_tasks_def)
  qed
  note ih = Cons.IH [OF this, unfolded c1]
  have e: "eventMap (bus (fold hook_unmount (i # b) w)) c =
      map_option (\<lambda>l. take (length l - count_on w (i # b) c) l) (eventMap (bus w) c)" for c
  proof (cases "c = ?c")
    case True
    with ih l show ?thesis
      by (simp add: w1 cnt count_on_def butlast_conv_take min_def)
  next
    case False
    with ih show ?thesis by (simp add: w1 cnt count_on_def)
  qed
  show ?case
    using ih e by (simp add: w1 set_phases_def)
qed

section \<open>StrictMode is invisible to the subscriptions\<close>

text \<open>C15: under StrictMode, React runs the effect of each freshly mounted site, then
  every cleanup, then every effect again; the page this gives, or the throw, is exactly
  the page of a single run of the effects. The cleanups run in the order of the effects
  and each \<open>off\<close> drops the last handler of its channel, so together they drop exactly
  the handlers the effects pushed.\<close>

theorem strict_effects_equiv:
  "run_page H (strict_effects b) w = run_page H (map Mount b) w"
proof (cases "run_page H (map Mount b) w")
  case (Inl e)
  then show ?thesis by (simp add: strict_effects_def run_page_append)
next
  case (Inr w1)
  note m1 = run_mounts [OF Inr]
  let ?w2 = "fold hook_unmount b w1"
  have "\<forall>c. count_on w1 b c \<le> length (own_tasks (bus w1) c)"
    using m1 by (simp add: count_on_def)
  note u = run_unmounts [OF this]
  have e2: "eventMap (bus ?w2) c =
      (if c \<in> chan w ` set b then Some (own_tasks (bus w) c) else eventMap (bus w) c)" for c
  proof (cases "c \<in> chan w ` set b")
    case True
    with u m1 show ?thesis by (simp add: count_on_def)
  next
    case False
    then have "filter (\<lambda>i. chan w i = c) b = []" by (auto simp: filter_empty_conv)
    with False u m1 show ?thesis by (simp add: count_on_def option.map_ident)
  qed
  have o2: "own_tasks (bus ?w2) c = own_tasks (bus w) c" for c
    using e2 [of c] by (simp add: own_tasks_def split: if_splits)
  have "\<forall>i \<in> set b. eventMap (bus ?w2) (chan ?w2 i) \<noteq> None"
    using u m1 e2 by simp
  then obtain w3 where r3: "run_page H (map Mount b) ?w2 = Inr w3"
    using run_mounts_ok by blast
  note m3 = run_mounts [OF r3]
  have "bus w3 = bus w1"
  proof (rule emitter.equality)
    show "eventMap (bus w3) = eventMap (bus w1)"
    proof
      fix c
      have ch: "chan ?w2 = chan w" using u m1 by simp
      show "eventMap (bus w3) c = eventMap (bus w1) c"
      proof (cases "c \<in> chan w ` set b")
        case True
        have "own_tasks (bus w3) c = own_tasks (bus w1) c"
          using m3 m1 o2 [of c] ch by simp
        with True m3 m1 ch show ?thesis by simp
      next
        case False
        with m3 m1 ch e2 [of c] show ?thesis by simp
      qed
    qed
  qed simp
  moreover have "sites w3 = sites w1" and "location w3 = location w1"
    using m3 m1 u by (simp_all add: set_phases_absorb)
  ultimately have "w3 = w1" by (intro world.equality) simp_all
  with r3 Inr show ?thesis
    by (simp add: strict_effects_def run_page_append run_page_unmounts)
qed

end
