(* ===== verification/ArrayIndex.thy ===== *)
theory ArrayIndex
  imports JsValue "HOL-Library.Word"
begin

text \<open>
  Array-index keys, the keys that \<open>for ... in\<close> in \<open>toString()\<close> (src/index.ts
  line 114) and the object spread of \<open>updateByChannelId\<close> (lines 137--140) visit first.
  ECMA-262 defines them through unsigned 32-bit integers: a string \<open>P\<close> is an array
  index when it is the canonical numeral \<open>ToString(ToUint32(P))\<close> of a 32-bit value
  other than \<open>2^32 - 1\<close>. \<open>JsObject.is_array_index\<close> tests the characters instead;
  this theory proves the two agree, with the 32-bit value a \<open>32 word\<close> and its
  numeral the \<open>Number::toString\<close> of the integer engine (\<open>nat_to_dec\<close>).
\<close>

definition canonical_numeral :: "string \<Rightarrow> bool" where
  "canonical_numeral d \<longleftrightarrow> d \<noteq> [] \<and> list_all is_digit d \<and> (hd d = CHR ''0'' \<longrightarrow> d = ''0'')"

lemma char_of_48: "char_of (48::nat) = CHR ''0''"
  by code_simp

lemma of_char_zero: "of_char c = (48::nat) \<longleftrightarrow> c = CHR ''0''"
proof
  assume "of_char c = (48::nat)"
  then have "char_of (of_char c :: nat) = (char_of (48::nat) :: char)" by simp
  then show "c = CHR ''0''" by (simp add: char_of_48)
qed simp

lemma unat_minus_one_32: "unat (- 1 :: 32 word) = 4294967295"
  by (simp add: unsigned_minus_1_eq_mask mask_eq_exp_minus_1)

lemma of_char_digit: "is_digit c \<Longrightarrow> 48 + (of_char c - 48 :: nat) = of_char c"
  by (simp add: is_digit_def)

lemma nat_to_dec_Suc_div:
  "10 \<le> n \<Longrightarrow> nat_to_dec n = nat_to_dec (n div 10) @ [char_of (48 + n mod 10)]"
  by (simp add: nat_to_dec.simps [of n])

lemma nat_to_dec_hd_zero: "hd (nat_to_dec n) = CHR ''0'' \<longleftrightarrow> n = 0"
proof (induction n rule: nat_to_dec.induct)
  case (1 n)
  show ?case
  proof (cases "n < 10")
    case True
    then have "nat_to_dec n = [char_of (48 + n)]" by (simp add: nat_to_dec.simps [of n])
    moreover have "(char_of (48 + n) = CHR ''0'') \<longleftrightarrow> n = 0"
    proof
      assume "char_of (48 + n) = CHR ''0''"
      then have "of_char (char_of (48 + n) :: char) = (48::nat)" by simp
      with True show "n = 0" by simp
    qed (simp add: char_of_48)
    ultimately show ?thesis by simp
  next
    case False
    have ne: "nat_to_dec (n div 10) \<noteq> []" using nat_to_dec_digits by blast
    have "hd (nat_to_dec n) = hd (nat_to_dec (n div 10))"
      using False ne by (simp add: nat_to_dec_Suc_div)
    with "1.IH" False show ?thesis by simp
  qed
qed

lemma canonical_nat_to_dec: "canonical_numeral (nat_to_dec n)"
proof -
  have "hd (nat_to_dec n) = CHR ''0'' \<Longrightarrow> nat_to_dec n = ''0''"
    using nat_to_dec_hd_zero [of n] by (simp add: nat_to_dec.simps [of 0] char_of_48)
  then show ?thesis using nat_to_dec_digits [of n] by (simp add: canonical_numeral_def)
qed

lemma nat_to_dec_digits_value:
  "canonical_numeral d \<Longrightarrow> nat_to_dec (digits_value d) = d"
proof (induction d rule: rev_induct)
  case Nil
  then show ?case by (simp add: canonical_numeral_def)
next
  case (snoc c d)
  have c: "is_digit c" and dd: "list_all is_digit d"
    using snoc.prems by (simp_all add: canonical_numeral_def)
  have x: "of_char c - 48 < (10::nat)" using c unfolding is_digit_def by arith
  show ?case
  proof (cases "d = []")
    case True
    then show ?thesis
      using c by (simp add: digits_value_def nat_to_dec.simps [of "of_char c - 48"] x
          of_char_digit)
  next
    case False
    have hd: "hd (d @ [c]) = hd d" using False by simp
    have cd: "canonical_numeral d"
      using snoc.prems False dd by (auto simp: canonical_numeral_def hd)
    then have IH: "nat_to_dec (digits_value d) = d" by (rule snoc.IH)
    have "digits_value d \<noteq> 0"
    proof
      assume "digits_value d = 0"
      with IH have "d = ''0''" by (simp add: nat_to_dec.simps [of 0] char_of_48)
      with snoc.prems show False by (simp add: canonical_numeral_def)
    qed
    then have ge: "10 \<le> digits_value (d @ [c])" by (simp add: digits_value_snoc)
    have dv: "digits_value (d @ [c]) div 10 = digits_value d"
      "digits_value (d @ [c]) mod 10 = of_char c - 48"
      using x by (simp_all add: digits_value_snoc)
    show ?thesis
      using nat_to_dec_Suc_div [OF ge] IH c by (simp add: dv of_char_digit)
  qed
qed

lemma is_array_index_canonical:
  "is_array_index k \<longleftrightarrow> canonical_numeral k \<and> digits_value k < 4294967295"
  by (cases k) (auto simp: is_array_index_def canonical_numeral_def is_digit_def of_char_zero [symmetric])

text \<open>a key is an array index exactly when it is the decimal numeral of a 32-bit
  unsigned word other than \<open>2^32 - 1\<close>.\<close>

theorem is_array_index_word:
  "is_array_index k \<longleftrightarrow> (\<exists>w :: 32 word. w \<noteq> - 1 \<and> nat_to_dec (unat w) = k)"
proof
  assume k: "is_array_index k"
  let ?w = "word_of_nat (digits_value k) :: 32 word"
  have lt: "digits_value k < 4294967295" and ck: "canonical_numeral k"
    using k by (simp_all add: is_array_index_canonical)
  then have u: "unat ?w = digits_value k" by (simp add: unat_of_nat)
  moreover have "?w \<noteq> - 1"
  proof
    assume "?w = - 1"
    then have "unat ?w = 4294967295" by (simp add: unat_minus_one_32)
    with u lt show False by simp
  qed
  ultimately show "\<exists>w :: 32 word. w \<noteq> - 1 \<and> nat_to_dec (unat w) = k"
    using nat_to_dec_digits_value [OF ck] by metis
next
  assume "\<exists>w :: 32 word. w \<noteq> - 1 \<and> nat_to_dec (unat w) = k"
  then obtain w :: "32 word" where w: "w \<noteq> - 1" and k: "nat_to_dec (unat w) = k" by blast
  have "unat w < 4294967296" using unsigned_less [of w, where ?'a = nat] by simp
  moreover have "unat w \<noteq> 4294967295"
  proof
    assume "unat w = 4294967295"
    then have "w = - 1" by (simp add: word_unat_eq_iff unat_minus_one_32)
    with w show False by simp
  qed
  ultimately have "unat w < 4294967295" by simp
  then show "is_array_index k"
    using canonical_nat_to_dec [of "unat w"] nat_to_dec_digits [of "unat w"] k
    by (simp add: is_array_index_canonical)
qed

end
