(* ===== verification/ViteConfig.thy ===== *)
theory ViteConfig
  imports Prelude
begin

text \<open>
  The build configuration src/vite.config.ts: a library build of src/index.ts whose
  bundles leave React to the host page. The configuration object is a record per
  nesting level of the source, the \<open>react()\<close> plugin a constructor, and the
  \<open>fileName\<close> callback a function of the output format. What the bundle needs from
  the configuration is taken from src/index.ts: the modules it imports (line 1) and the
  names it exports (line 156). Vite's own behaviour enters through one fact of its
  documentation: a library build without \<open>formats\<close> emits the formats \<open>es\<close> and
  \<open>umd\<close>, and a UMD bundle reads each external module from the global named in
  \<open>output.globals\<close>.
\<close>

section \<open>The configuration\<close>

datatype plugin = ReactPlugin

datatype lib_format = FormatEs | FormatCjs | FormatUmd | FormatIife

fun format_name :: "lib_format \<Rightarrow> string" where
  "format_name FormatEs = ''es''"
| "format_name FormatCjs = ''cjs''"
| "format_name FormatUmd = ''umd''"
| "format_name FormatIife = ''iife''"

record lib_options =
  entry :: string
  lib_name :: string
  file_name :: "lib_format \<Rightarrow> string"

record output_options =
  globals :: "(string \<times> string) list"

record rollup_options =
  external :: "string list"
  rollup_output :: output_options

record build_options =
  lib :: lib_options
  rollup :: rollup_options

record user_config =
  plugins :: "plugin list"
  base :: string
  build :: build_options

text \<open>\<open>fileName: (format) => `use-search-params.${format}.js`\<close>.\<close>

definition lib_file_name :: "lib_format \<Rightarrow> string" where
  "lib_file_name format = ''use-search-params.'' @ format_name format @ ''.js''"

definition vite_config :: user_config where
  "vite_config =
     \<lparr>plugins = [ReactPlugin],
      base = ''./'',
      build =
        \<lparr>lib = \<lparr>entry = ''index.ts'', lib_name = ''useSearchParams'', file_name = lib_file_name\<rparr>,
         rollup = \<lparr>external = [''react'', ''react-dom''],
                   rollup_output = \<lparr>globals = [(''react'', ''React''), (''react-dom'', ''react-dom'')]\<rparr>\<rparr>\<rparr>\<rparr>"

text \<open>The modules src/index.ts imports and the names it exports.\<close>

definition index_imports :: "string list" where
  "index_imports = [''react'']"

definition index_exports :: "string list" where
  "index_exports = [''useSearchParams'']"

definition default_lib_formats :: "lib_format list" where
  "default_lib_formats = [FormatEs, FormatUmd]"

text \<open>A library build is consistent when the bundle leaves every imported module
  external, every external module has a UMD global, the library's global name is an
  export of the entry, and the formats write distinct files.\<close>

definition lib_build_consistent :: "user_config \<Rightarrow> lib_format list \<Rightarrow> bool" where
  "lib_build_consistent c fmts \<longleftrightarrow>
     set index_imports \<subseteq> set (external (rollup (build c))) \<and>
     set (external (rollup (build c))) \<subseteq> fst ` set (globals (rollup_output (rollup (build c)))) \<and>
     lib_name (lib (build c)) \<in> set index_exports \<and>
     distinct (map (file_name (lib (build c))) fmts)"

section \<open>Lemmas\<close>

lemma format_name_inj: "format_name f = format_name g \<longleftrightarrow> f = g"
  by (cases f; cases g) simp_all

lemma lib_file_name_inj: "lib_file_name f = lib_file_name g \<longleftrightarrow> f = g"
  by (simp add: lib_file_name_def format_name_inj)

lemma distinct_lib_file_names: "distinct fmts \<Longrightarrow> distinct (map lib_file_name fmts)"
  by (simp add: distinct_map inj_on_def lib_file_name_inj)

text \<open>the configuration is a consistent library build for every list of distinct
  formats, the default ones included: React stays external with a UMD global, the
  global name \<open>useSearchParams\<close> is the entry's export, and no two formats write the
  same file.\<close>

theorem vite_config_consistent:
  "distinct fmts \<Longrightarrow> lib_build_consistent vite_config fmts"
  by (simp add: lib_build_consistent_def vite_config_def index_imports_def index_exports_def
      distinct_lib_file_names)

theorem vite_config_consistent_witness:
  "distinct default_lib_formats \<and> lib_build_consistent vite_config default_lib_formats"
proof -
  have d: "distinct default_lib_formats" by (simp add: default_lib_formats_def)
  show ?thesis using vite_config_consistent [OF d] d by simp
qed

end
