(* ===== verification/Spec2Isabelle.thy ===== *)
theory Spec2Isabelle
  imports StrictMode ArrayIndex ViteConfig
begin

text \<open>
  \<^bold>\<open>A verification library for use-search-params-hook.\<close>

  The repository (src/index.ts) is a React hook, \<open>useSearchParams(fields, channelId)\<close>,
  that keeps a typed view of \<open>location.search\<close> in every component that calls it and
  keeps the views of one channel in step through a module-level event emitter.
  src/vite.config.ts is the library build of that module.

  \<^bold>\<open>Parts and theories.\<close>
  \<^item> \<open>Prelude\<close>: the model's type names (\<open>channel\<close>, \<open>site_id\<close>), the rule
    collections \<open>obj_simps\<close>, \<open>bus_simps\<close>, \<open>url_simps\<close>, and generic lemmas on
    association lists, sums, folds and lists.
  \<^item> \<open>JsObject\<close>: ordinary JavaScript objects (snapshots, partial updates, the schema,
    the emitter's map) as association lists in creation order, with assignment
    (\<open>obj_assign\<close>, which drops a \<open>__proto__\<close> key), definition (\<open>obj_define\<close>), the
    property order of \<open>for ... in\<close> and spread (\<open>obj_entries\<close>: array indices first, in
    numeric order) and the spread \<open>{...a, ...b}\<close> (\<open>obj_spread2\<close>).
  \<^item> \<open>JsValue\<close>: values (primitives, and the arrays and objects \<open>JSON.parse\<close> creates),
    \<open>typeof\<close>, ToString (\<open>Array.prototype.toString\<close>, \<open>[object Object]\<close>, and the
    TypeError of an object whose own \<open>toString\<close> is not callable),
    \<open>Array.prototype.join\<close>, \<open>EMPTY_LIST.includes\<close> (SameValueZero). Numbers are
    abstract: a \<open>number_host\<close> supplies ToNumber, Number::toString and NaN, and the
    theorems assume only \<open>number_host_ok\<close> (print-then-read is the identity on non-NaN
    numbers); \<open>int_host\<close>, an engine on integers, satisfies it and evaluates the
    witnesses.
  \<^item> \<open>Json\<close>: \<open>JSON.parse\<close> (line 88) as a recursive-descent parser with fuel:
    literals, numbers, strings with all escapes (\<open>\u\<close> written as UTF-8), arrays and
    objects to any depth.
  \<^item> \<open>Utf8\<close>: the UTF-8 encoder and the WHATWG UTF-8 decoder (U+FFFD for ill-formed
    bytes), which \<open>URLSearchParams\<close> applies to names and values.
  \<^item> \<open>ArrayIndex\<close>: the ECMA-262 definition of array-index keys through \<open>32 word\<close>.
  \<^item> \<open>UrlSearch\<close>: the browser side, \<open>location.search\<close>, the \<open>search\<close> setter of
    \<open>URL\<close> (percent-encoding of the special-query set), \<open>history.replaceState\<close> and the
    \<open>URLSearchParams\<close> parser, after the WHATWG URL standard on byte strings.
  \<^item> \<open>EventEmitter\<close>: class \<open>EventEmitter\<close> (src/index.ts lines 11--55): \<open>em_on\<close>,
    \<open>em_emit\<close> (a live-array \<open>forEach\<close>, \<open>for_each_live\<close>, with the handler semantics
    and the global state as parameters) and \<open>em_off\<close>; and an abstract bus
    (\<open>spec_subscribe\<close>, \<open>spec_unsubscribe\<close>, \<open>spec_publish\<close>) with the refinement map
    \<open>em_abs\<close>.
  \<^item> \<open>SearchParams\<close>: the hook (lines 57--154): \<open>check_type\<close>, \<open>init\<close>,
    \<open>to_string\<close>, \<open>update_by_channel_id\<close>, and the React lifecycle of a usage site as
    steps of a page (\<open>world\<close>: emitter, sites, location): \<open>hook_render\<close>,
    \<open>hook_mount\<close>, \<open>hook_unmount\<close>, \<open>hook_update\<close> (a completion: the
    page reached, and the TypeError if a handler threw); the pair the hook returns
    (\<open>UseSearchParams<T>\<close>: the \<open>search\<close> object and \<open>update\<close>) is
    \<open>use_search_params\<close>.
  \<^item> \<open>Page\<close>: the pages React and the user can produce (\<open>reachable\<close>, an inductive
    step relation) and their invariant \<open>world_inv\<close>; the events of a page
    (\<open>page_event\<close>) and their run (\<open>page_step\<close>, \<open>run_page\<close>), which stops at the
    first throw of a render, an effect or an update.
  \<^item> \<open>Subscriptions\<close>: how many handlers the emitter holds on a page: the counting
    invariant \<open>count_inv\<close> (one handler per mounted site of a channel) and the
    cleanups of the mounted sites (\<open>mounted_sites\<close>).
  \<^item> \<open>StrictMode\<close>: React's StrictMode double invocation of effects
    (\<open>strict_effects\<close>: every effect of a batch, every cleanup, every effect again)
    and the runs of effects and cleanups (\<open>run_mounts\<close>, \<open>run_unmounts\<close>).
  \<^item> \<open>ViteConfig\<close>: src/vite.config.ts, the library build configuration, as nested
    records, checked against the imports and exports of src/index.ts.

  \<^bold>\<open>Exceptions.\<close> A JavaScript completion is modelled as in Jinja's big-step
  semantics: a pair of an optional exception and the state reached, kept at the throw
  (\<open>completion\<close>, \<open>fold_throw\<close> in \<open>Prelude\<close>). ToString throws a TypeError on an
  object with an own \<open>toString\<close> key (\<open>js_to_string\<close>, whose values are
  \<open>js_error + string\<close>). So \<open>toString()\<close> of the hook may throw, and so may the
  handler \<open>updateByChannelId\<close> after its merge and before \<open>replaceState\<close> and
  \<open>forceUpdate\<close>. \<open>emit\<close>'s \<open>forEach\<close> stops at the first throwing handler, and the
  throw leaves \<open>update\<close>.

  \<^bold>\<open>What is shown.\<close> Claim ids C1--C22 label the main theorems.
  \<^item> Propagation and isolation: an update in which every registered site can serialise
    its merged snapshot completes. It reaches each site registered on the caller's
    channel once and merges by spread (C1). Sites of other channels are untouched,
    whether the update completes or throws (C2). Until the first cleanup the handlers
    of a channel are exactly its mounted sites, so every mounted site of the channel
    reads the merged snapshot from the pair its hook returns once \<open>update\<close> returns,
    as the specification promises (C3).
  \<^item> The throwing update: when one registered site's merged snapshot cannot be
    serialised, the update throws at that site. The sites before it have merged,
    re-rendered and written the address. That site has merged only, and the later
    sites never see the update (C4). The sites of one channel are then out of step.
  \<^item> The bus: \<open>on\<close> and \<open>emit\<close> refine the abstract bus (C5, C7). \<open>off\<close> removes
    the last handler of the channel, whatever handler it is given (C6). \<open>on\<close> throws
    for a channel named like a property of \<open>Object.prototype\<close> (C9).
  \<^item> The \<open>off\<close> defect on a page: when a registered site that is not the last of its
    channel unmounts, it stays registered. The last registered site, still mounted, is
    unsubscribed, and no later update changes it (C8).
  \<^item> The store: \<open>init\<close> after \<open>toString()\<close> gives back the non-empty entries of a
    snapshot that fits the schema, for any lawful number engine (C10). \<open>toString()\<close>
    writes the empty query exactly when every value of the snapshot is one of
    \<open>EMPTY_LIST\<close> (C17). \<open>init\<close> returns well-typed snapshots (C20) and keeps the last
    value of a repeated key (C21).
  \<^item> Effects of an update on the page: the location holds the serialisation of the
    snapshot merged last (C11), and its path and fragment never change (C18). A
    handler merges and, unless \<open>toString()\<close> throws, re-renders and writes the
    address; when it throws, the address and the render counter stay (C16). An update
    on a channel without subscribers changes nothing (C19). A site that has rendered
    but whose effect has not run misses every update (C22).
  \<^item> The page invariant: every page reachable from the empty page satisfies
    \<open>world_inv\<close>, proved by rule induction over \<open>reachable\<close> (C12). The invariant
    says that registered handlers are distinct, existing sites on that channel past
    their first effect, and that snapshots are well-formed objects.
  \<^item> The subscriptions: on every reachable page a channel holds exactly one handler per
    site mounted on it (C13), although \<open>off\<close> removes the last handler rather than the
    site's own. Liveness: from every reachable page, running the cleanups of the
    mounted sites succeeds and reaches a reachable page whose emitter holds no handler
    (C14), so no handler of a gone component stays registered once all are unmounted.
  \<^item> StrictMode: running the effects, the cleanups and the effects again gives exactly
    the page of one run of the effects, on every page (C15). The cleanups run in the
    order of the effects and each \<open>off\<close> drops its channel's last handler, so they
    drop what the effects pushed: the \<open>off\<close> defect does not show under StrictMode.
  \<^item> Supporting lemmas, not claims, cover the platform the hook runs on. The
    character test for array-index keys agrees with the 32-bit definition of ECMA-262.
    \<open>JSON.parse\<close> terminates on every text. The UTF-8 decoder inverts the encoder. The
    query the hook writes reads back as the same pairs when it avoids
    \<open>& % +\<close>. The vite configuration keeps React external.
  \<^item> Concrete runs of \<open>run_page\<close>, kept as lemmas, show the specification's worked
    example and the defects on one input each:
    \<^item> the worked example of an update;
    \<^item> unmounting one of two sites unsubscribes the other;
    \<^item> an update between a site's render and its effect is missed;
    \<^item> a channel id such as \<open>constructor\<close> makes the effect throw;
    \<^item> a JSON object in a boolean field makes the next render throw after an update;
    \<^item> an empty number field \<open>?count=\<close> reads as 0 and is written back as
      \<open>count=0\<close>;
    \<^item> an object with an own \<open>toString\<close> key makes \<open>toString()\<close> throw.

  \<^bold>\<open>Bounds, fuel and termination.\<close>
  \<^item> \<open>for_each_live\<close> is a \<open>function\<close> that terminates by the measure \<open>len - k\<close>: the
    length is read once when \<open>forEach\<close> starts.
  \<^item> The JSON parser carries fuel, one unit per call of \<open>json_value\<close>,
    \<open>json_elements\<close> or \<open>json_members\<close>. \<open>json_parse\<close> gives \<open>2 n + 1\<close> units to a text
    of length \<open>n\<close>: every call consumes input before the next call of the same kind, so
    two units per character suffice (\<open>json_fuel_enough\<close>).
  \<^item> The other parsers are structural recursions on the input text, or
    \<open>json_string_chars\<close>, which terminates by the length of the text.
  \<^item> Array-index keys are the canonical decimal numerals below \<open>2^32 - 1\<close>, as in
    ECMAScript.

  \<^bold>\<open>Not modelled.\<close>
  \<^item> React is a library, not code of the repository: its scheduling, the batching of
    state updates and concurrent rendering are reduced to the order of lifecycle steps
    in \<open>reachable\<close> and \<open>run_page\<close> (StrictMode's double effects included), and
    \<open>forceUpdate\<close> is a counter.
  \<^item> Strings are their UTF-8 bytes, so a JavaScript string with a lone surrogate has
    no representation: a \<open>\u\<close> escape of a lone surrogate gives \<open>Unmodelled\<close>. The
    parsing of \<open>location.href\<close> by \<open>new URL\<close> is not modelled: the page's URL is a
    parsed record.
  \<^item> The numbers of the engine are abstract behind \<open>number_host\<close>.
  \<^item> Object identity is not tracked: the only objects in the model are the fresh ones
    \<open>JSON.parse\<close> creates.
  \<^item> Prototypes are not modelled. Assigning a \<open>__proto__\<close> key is dropped
    (\<open>obj_assign\<close>). JavaScript would instead set the prototype when \<open>init\<close>
    assigns a JSON object to a boolean schema field named \<open>__proto__\<close>. This needs a
    schema with an own \<open>__proto__\<close> property; object literals do not create one.
  \<^item> Re-entrant \<open>emit\<close> (a handler that publishes) does not occur in the hook, whose
    handlers never publish.
\<close>

end
